theory Spec2Isabelle
  imports Complex_Main "HOL-Library.Word"
begin

section \<open>Data model of the balancer package\<close>

text \<open>
  Go's \<^verbatim>\<open>float64\<close> is modelled by the real numbers: the arithmetic of the weighting
  engine is read as exact arithmetic, NaN and the infinities are outside the model.
  Go's \<^verbatim>\<open>int\<close>, \<^verbatim>\<open>uint64\<close> and \<^verbatim>\<open>time.Duration\<close> are 64-bit words. A Go \<^verbatim>\<open>error\<close> is an opaque
  message; a panic (nil dereference, index out of range, invalid argument) is a value of
  type \<open>fault\<close>, and a function that can panic returns \<open>fault + 'a\<close>.
\<close>

type_synonym float64 = real
type_synonym error = string

datatype fault = NilPointer | IndexOutOfRange | InvalidArgument

text \<open>
  A Go map whose size is read is an association list with one pair per key: the lookup
  is \<open>map_of\<close>, the store is \<open>mapStore\<close>, and \<^verbatim>\<open>len\<close> is the length of the list. A Go
  map that is only looked up and stored to is a map \<open>'k \<rightharpoonup> 'v\<close>.
\<close>

fun mapStore :: "'k \<Rightarrow> 'v \<Rightarrow> ('k \<times> 'v) list \<Rightarrow> ('k \<times> 'v) list" where
  "mapStore k v [] = [(k, v)]"
| "mapStore k v ((k', v') # m) =
     (if k' = k then (k', v) # m else (k', v') # mapStore k v m)"

definition BALANCEFACTOR_MAX_LOCAL :: float64 where "BALANCEFACTOR_MAX_LOCAL = 3000"
definition BALANCEFACTOR_MIN_LOCAL :: float64 where "BALANCEFACTOR_MIN_LOCAL = 200"
definition BALANCEFACTOR_MAX_CROSS :: float64 where "BALANCEFACTOR_MAX_CROSS = 1000"
definition BALANCEFACTOR_MIN_CROSS :: float64 where "BALANCEFACTOR_MIN_CROSS = 1"
definition BALANCEFACTOR_START_CROSS :: float64 where "BALANCEFACTOR_START_CROSS = 50"
definition BALANCEFACTOR_CROSS_RATE :: float64 where "BALANCEFACTOR_CROSS_RATE = 1 / 10"

record ConsulResolverMetric =
  candidatePoolSize :: "64 word"
  crossZoneNum :: "64 word"
  selectNum :: "64 word"

record OnlineLab =
  CrossZone :: bool
  CrossZoneRate :: float64
  FactorCacheExpire :: "64 word"
  FactorStartRate :: float64
  LearningRate :: float64
  RateThreshold :: float64

record ServiceNode =
  PublicIP :: string
  InstanceID :: string
  Host :: string
  Port :: "64 word"
  Zone :: string
  BalanceFactor :: float64
  CurrentFactor :: float64
  WorkLoad :: float64

text \<open>The fields of \<^verbatim>\<open>ServiceZone\<close> and \<^verbatim>\<open>CandidatePool\<close> carry a prefix, since
  \<^verbatim>\<open>Nodes\<close>, \<^verbatim>\<open>Zone\<close> and \<^verbatim>\<open>WorkLoad\<close> occur in several structs.\<close>

record ServiceZone =
  sz_Nodes :: "ServiceNode list"
  sz_Zone :: string
  sz_WorkLoad :: float64

record CandidatePool =
  cp_Nodes :: "ServiceNode list"
  cp_Factors :: "float64 list"
  cp_Weights :: "float64 list"
  cp_FactorSum :: float64

record CPUThreshold =
  CThreshold :: float64

record ZoneCPUUtilizationRatio =
  zc_Updated :: "64 word"
  zc_Date :: "(string \<rightharpoonup> float64) list"

record InstanceMetaInfo =
  im_PublicIP :: string
  im_InstanceID :: string
  im_CPUUtilization :: float64
  im_Zone :: string

record InstanceFactor =
  if_Updated :: "64 word"
  if_Date :: "InstanceMetaInfo list"

text \<open>The logger is an interface value; only whether it is nil matters to the code.\<close>

datatype Logger = Logger

text \<open>
  The resolver. Pointer fields that may be nil (\<^verbatim>\<open>candidatePool\<close>, \<^verbatim>\<open>localZone\<close>,
  \<^verbatim>\<open>onlineLab\<close>, \<^verbatim>\<open>metric\<close>, \<^verbatim>\<open>logger\<close>) are options. The registry client, the
  stop channel and the two mutexes belong to the environment and are not fields here.
\<close>

record ConsulResolver =
  address :: string
  service :: string
  lastIndex :: "64 word"
  zone :: string
  candidatePool :: "CandidatePool option"
  localZone :: "ServiceZone option"
  serviceZones :: "ServiceZone list"
  zoneCPUMap :: "string \<rightharpoonup> float64"
  instanceFactorMap :: "string \<rightharpoonup> float64"
  balanceFactorCache :: "(string \<times> float64) list"
  interval :: "64 word"
  timeout :: "64 word"
  cpuThreshold :: float64
  onlineLab :: "OnlineLab option"
  cpuThresholdKey :: string
  instanceFactorKey :: string
  onlineLabKey :: string
  zoneCPUKey :: string
  metric :: "ConsulResolverMetric option"
  zoneCPUUpdated :: bool
  logger :: "Logger option"

subsection \<open>The registry and the other collaborators\<close>

text \<open>
  One entry of the health endpoint: the service's metadata map, address and port.
\<close>

record ServiceEntry =
  se_Meta :: "string \<rightharpoonup> string"
  se_Address :: string
  se_Port :: "64 word"

text \<open>
  What one refresh cycle sees of the outside world. \<open>KVGet\<close> is \<^verbatim>\<open>client.KV().Get\<close>:
  an error, a nil pair, or the pair's bytes. The four \<open>Unmarshal\<close> fields are the JSON
  decoder at the four payload types. \<open>HealthService\<close> is \<^verbatim>\<open>client.Health().Service\<close>
  (service, wait index, wait time), returning the entries and \<^verbatim>\<open>meta.LastIndex\<close>.
  \<open>ParseFloat\<close> is the value \<^verbatim>\<open>strconv.ParseFloat\<close> returns (its error is dropped by
  the caller). \<open>randSource\<close> is the state of the pseudo-random source, and
  \<open>rangeChoices\<close> resolves the unspecified iteration order of a Go map.
\<close>

record Env =
  KVGet :: "string \<Rightarrow> error + string option"
  UnmarshalCPUThreshold :: "string \<Rightarrow> error + CPUThreshold"
  UnmarshalZoneCPU :: "string \<Rightarrow> error + ZoneCPUUtilizationRatio"
  UnmarshalOnlineLab :: "string \<Rightarrow> error + OnlineLab"
  UnmarshalInstanceFactor :: "string \<Rightarrow> error + InstanceFactor"
  HealthService :: "string \<Rightarrow> 64 word \<Rightarrow> 64 word \<Rightarrow> error + (ServiceEntry list \<times> 64 word)"
  ParseFloat :: "string \<Rightarrow> float64"
  randSource :: nat
  rangeChoices :: "nat list"

section \<open>Construction and setters\<close>

text \<open>\<^verbatim>\<open>NewConsulResolver\<close>, after the client was created; \<open>z\<close> is \<^verbatim>\<open>util.Zone()\<close>.
  Fields the struct literal does not mention take Go's zero value.\<close>

definition NewConsulResolver ::
  "string \<Rightarrow> string \<Rightarrow> string \<Rightarrow> string \<Rightarrow> string \<Rightarrow> string \<Rightarrow> 64 word \<Rightarrow> 64 word
     \<Rightarrow> string \<Rightarrow> ConsulResolver" where
  "NewConsulResolver addr svc cpuKey zoneKey instKey labKey ival tout z =
     \<lparr> address = addr, service = svc, lastIndex = 0, zone = z,
       candidatePool = None, localZone = None, serviceZones = [],
       zoneCPUMap = Map.empty, instanceFactorMap = Map.empty,
       balanceFactorCache = [],
       interval = ival, timeout = tout, cpuThreshold = 0, onlineLab = None,
       cpuThresholdKey = cpuKey, instanceFactorKey = instKey,
       onlineLabKey = labKey, zoneCPUKey = zoneKey,
       metric = None, zoneCPUUpdated = False, logger = None \<rparr>"

definition SetLogger :: "Logger option \<Rightarrow> ConsulResolver \<Rightarrow> ConsulResolver" where
  "SetLogger l r = r\<lparr>logger := l\<rparr>"

definition SetZone :: "string \<Rightarrow> ConsulResolver \<Rightarrow> ConsulResolver" where
  "SetZone z r = r\<lparr>zone := z\<rparr>"

section \<open>The config store reader\<close>

text \<open>
  Each of the four update functions gets its key, decodes the pair's value and only then
  assigns the resolver field and logs. A nil pair is dereferenced (\<^verbatim>\<open>res.Value\<close>), and
  the logger is called without a nil check.
\<close>

definition updateCPUThreshold ::
  "Env \<Rightarrow> ConsulResolver \<Rightarrow> fault + (error option \<times> ConsulResolver)" where
  "updateCPUThreshold env r =
     (case KVGet env (cpuThresholdKey r) of
        Inl err \<Rightarrow> Inr (Some err, r)
      | Inr None \<Rightarrow> Inl NilPointer
      | Inr (Some bytes) \<Rightarrow>
          (case UnmarshalCPUThreshold env bytes of
             Inl err \<Rightarrow> Inr (Some err, r)
           | Inr ct \<Rightarrow>
               (case logger r of
                  None \<Rightarrow> Inl NilPointer
                | Some _ \<Rightarrow> Inr (None, r\<lparr>cpuThreshold := CThreshold ct\<rparr>))))"

definition updateZoneCPUMap ::
  "Env \<Rightarrow> ConsulResolver \<Rightarrow> fault + (error option \<times> ConsulResolver)" where
  "updateZoneCPUMap env r =
     (case KVGet env (zoneCPUKey r) of
        Inl err \<Rightarrow> Inr (Some err, r)
      | Inr None \<Rightarrow> Inl NilPointer
      | Inr (Some bytes) \<Rightarrow>
          (case UnmarshalZoneCPU env bytes of
             Inl err \<Rightarrow> Inr (Some err, r)
           | Inr zc \<Rightarrow>
               (case logger r of
                  None \<Rightarrow> Inl NilPointer
                | Some _ \<Rightarrow>
                    Inr (None, r\<lparr>zoneCPUMap := foldl (++) Map.empty (zc_Date zc)\<rparr>))))"

definition updateOnlineLabFactor ::
  "Env \<Rightarrow> ConsulResolver \<Rightarrow> fault + (error option \<times> ConsulResolver)" where
  "updateOnlineLabFactor env r =
     (case KVGet env (onlineLabKey r) of
        Inl err \<Rightarrow> Inr (Some err, r)
      | Inr None \<Rightarrow> Inl NilPointer
      | Inr (Some bytes) \<Rightarrow>
          (case UnmarshalOnlineLab env bytes of
             Inl err \<Rightarrow> Inr (Some err, r)
           | Inr ol \<Rightarrow>
               (case logger r of
                  None \<Rightarrow> Inl NilPointer
                | Some _ \<Rightarrow> Inr (None, r\<lparr>onlineLab := Some ol\<rparr>))))"

definition updateInstanceFactorMap ::
  "Env \<Rightarrow> ConsulResolver \<Rightarrow> fault + (error option \<times> ConsulResolver)" where
  "updateInstanceFactorMap env r =
     (case KVGet env (instanceFactorKey r) of
        Inl err \<Rightarrow> Inr (Some err, r)
      | Inr None \<Rightarrow> Inl NilPointer
      | Inr (Some bytes) \<Rightarrow>
          (case UnmarshalInstanceFactor env bytes of
             Inl err \<Rightarrow> Inr (Some err, r)
           | Inr i \<Rightarrow>
               (case logger r of
                  None \<Rightarrow> Inl NilPointer
                | Some _ \<Rightarrow>
                    Inr (None,
                      r\<lparr>instanceFactorMap :=
                          foldl (\<lambda>m v. m(im_InstanceID v \<mapsto> im_CPUUtilization v))
                            Map.empty (if_Date i)\<rparr>))))"

section \<open>The topology snapshot\<close>

text \<open>Reading a Go map of strings at a missing key gives the empty string.\<close>

definition metaGet :: "(string \<rightharpoonup> string) \<Rightarrow> string \<Rightarrow> string" where
  "metaGet m k = (case m k of None \<Rightarrow> [] | Some v \<Rightarrow> v)"

text \<open>The first loop of \<^verbatim>\<open>updateServiceZone\<close>: one \<^verbatim>\<open>ServiceNode\<close> per entry. The
  fields \<^verbatim>\<open>CurrentFactor\<close> and \<^verbatim>\<open>WorkLoad\<close> are not assigned and stay zero.\<close>

definition entryNode :: "Env \<Rightarrow> ServiceEntry \<Rightarrow> ServiceNode" where
  "entryNode env entry =
     \<lparr> PublicIP = metaGet (se_Meta entry) ''publicIP'',
       InstanceID = metaGet (se_Meta entry) ''instanceID'',
       Host = se_Address entry,
       Port = se_Port entry,
       Zone = metaGet (se_Meta entry) ''zone'',
       BalanceFactor = ParseFloat env (metaGet (se_Meta entry) ''balanceFactor''),
       CurrentFactor = 0,
       WorkLoad = 0 \<rparr>"

text \<open>
  The second loop (lines 322 to 350); \<open>m\<close> is the zone map, an association list.
  The lookup in the instance factor map
  yields \<^verbatim>\<open>workload\<close> (zero when absent) and \<^verbatim>\<open>ok\<close>; only when the key is absent is
  the node's \<^verbatim>\<open>WorkLoad\<close> assigned (to 100); then \<^verbatim>\<open>workload\<close> is written back into
  the map. The map is the one \<^verbatim>\<open>updateInstanceFactorMap\<close> has just made, never nil.
\<close>

fun groupNodes :: "Logger option \<Rightarrow> (string \<rightharpoonup> float64) \<Rightarrow> ServiceNode list
    \<Rightarrow> (string \<rightharpoonup> float64) \<Rightarrow> (string \<times> ServiceZone) list
    \<Rightarrow> fault + ((string \<rightharpoonup> float64) \<times> (string \<times> ServiceZone) list)" where
  "groupNodes lg zcm [] ifm m = Inr (ifm, m)"
| "groupNodes lg zcm (v0 # vs) ifm m =
     (let workload = (case ifm (InstanceID v0) of None \<Rightarrow> 0 | Some w \<Rightarrow> w);
          v = (case ifm (InstanceID v0) of None \<Rightarrow> v0\<lparr>WorkLoad := 100\<rparr> | Some w \<Rightarrow> v0);
          ifm' = ifm(InstanceID v0 \<mapsto> workload);
          m' = (case map_of m (Zone v) of
                  None \<Rightarrow>
                    mapStore (Zone v)
                      \<lparr> sz_Nodes = [v], sz_Zone = Zone v,
                        sz_WorkLoad = (case zcm (Zone v) of
                                         Some zoneWorkload \<Rightarrow> zoneWorkload
                                       | None \<Rightarrow> 100) \<rparr> m
                | Some sz \<Rightarrow> mapStore (Zone v) (sz\<lparr>sz_Nodes := sz_Nodes sz @ [v]\<rparr>) m)
      in case lg of
           None \<Rightarrow> Inl NilPointer
         | Some _ \<Rightarrow> groupNodes lg zcm vs ifm' m')"

text \<open>The order in which \<^verbatim>\<open>range\<close> visits a Go map is not specified: the choices of
  the environment pick the next element among those not yet visited.\<close>

fun rangeOrder :: "nat list \<Rightarrow> 'a list \<Rightarrow> 'a list" where
  "rangeOrder cs [] = []"
| "rangeOrder [] (x # xs) = x # xs"
| "rangeOrder (c # cs) (x # xs) =
     (let i = c mod length (x # xs)
      in ((x # xs) ! i) # rangeOrder cs (take i (x # xs) @ drop (Suc i) (x # xs)))"

text \<open>The third loop (lines 352 to 358): every zone is appended, and a zone named as
  the resolver's own zone becomes the local zone.\<close>

fun collectZones :: "string \<Rightarrow> ServiceZone list \<Rightarrow> ServiceZone list \<times> ServiceZone option
    \<Rightarrow> ServiceZone list \<times> ServiceZone option" where
  "collectZones z [] acc = acc"
| "collectZones z (v # vs) (zs, lz) =
     collectZones z vs (zs @ [v], if sz_Zone v = z then Some v else lz)"

definition updateServiceZone ::
  "Env \<Rightarrow> ConsulResolver \<Rightarrow> fault + (error option \<times> ConsulResolver)" where
  "updateServiceZone env r =
     (case HealthService env (service r) (lastIndex r) (timeout r) of
        Inl err \<Rightarrow> Inr (Some err, r)
      | Inr (res, metaLastIndex) \<Rightarrow>
          (case groupNodes (logger r) (zoneCPUMap r) (map (entryNode env) res)
                  (instanceFactorMap r) [] of
             Inl f \<Rightarrow> Inl f
           | Inr (ifm, m) \<Rightarrow>
               (case collectZones (zone r) (rangeOrder (rangeChoices env) (map snd m))
                       ([], localZone r) of
                  (zs, lz) \<Rightarrow>
                    Inr (None,
                      r\<lparr>lastIndex := metaLastIndex, instanceFactorMap := ifm,
                        localZone := lz, serviceZones := zs\<rparr>))))"

section \<open>Cache expiry\<close>

text \<open>\<^verbatim>\<open>util.IntPseudoRandom\<close>: \<^verbatim>\<open>Intn\<close> panics on a bound that is not positive, and
  otherwise draws from below the bound.\<close>

definition IntPseudoRandom :: "nat \<Rightarrow> 64 word \<Rightarrow> 64 word \<Rightarrow> fault + 64 word" where
  "IntPseudoRandom src mn mx =
     (let n = mx - mn + 1
      in if sint n \<le> 0 then Inl InvalidArgument
         else Inr (word_of_int (int src mod sint n) + mn))"

definition expireBalanceFactorCache :: "Env \<Rightarrow> ConsulResolver \<Rightarrow> fault + ConsulResolver" where
  "expireBalanceFactorCache env r =
     (case onlineLab r of
        None \<Rightarrow> Inl NilPointer
      | Some ol \<Rightarrow>
          (case IntPseudoRandom (randSource env) 1 (FactorCacheExpire ol) of
             Inl f \<Rightarrow> Inl f
           | Inr d \<Rightarrow>
               if 1 = d then
                 (case logger r of
                    None \<Rightarrow> Inl NilPointer
                  | Some _ \<Rightarrow> Inr (r\<lparr>balanceFactorCache := []\<rparr>))
               else Inr r))"

section \<open>The candidate pool builder\<close>

text \<open>The balance predicates, at the hyperparameters \<^verbatim>\<open>r.onlineLab\<close> points to.\<close>

definition nodeBalanced :: "OnlineLab \<Rightarrow> ServiceNode \<Rightarrow> ServiceZone \<Rightarrow> bool" where
  "nodeBalanced ol node z \<longleftrightarrow> \<bar>WorkLoad node - sz_WorkLoad z\<bar> / 100 < RateThreshold ol"

definition zoneBalanced :: "OnlineLab \<Rightarrow> ServiceZone \<Rightarrow> ServiceZone \<Rightarrow> bool" where
  "zoneBalanced ol lz crossZone \<longleftrightarrow>
     \<bar>sz_WorkLoad lz - sz_WorkLoad crossZone\<bar> / 100 < RateThreshold ol * 2"

text \<open>
  The factor of one node of the local zone (lines 387 to 416): the start value, the
  cache or warm start when \<^verbatim>\<open>factorCached\<close>, the nudge, the clamp.
\<close>

definition localFactor :: "bool \<Rightarrow> bool \<Rightarrow> OnlineLab \<Rightarrow> (string \<times> float64) list \<Rightarrow> float64
    \<Rightarrow> ServiceZone \<Rightarrow> ServiceNode \<Rightarrow> float64" where
  "localFactor factorCached zcu ol cache localAvgFactor serviceZone node =
     (let bf1 = (if factorCached then
                   (case map_of cache (InstanceID node) of
                      Some bf \<Rightarrow> bf
                    | None \<Rightarrow>
                        if localAvgFactor > 0 then localAvgFactor
                        else BalanceFactor node * FactorStartRate ol)
                 else BalanceFactor node);
          bf2 = (if \<not> nodeBalanced ol node serviceZone \<and> zcu then
                   (if WorkLoad node > sz_WorkLoad serviceZone
                    then bf1 - bf1 * LearningRate ol
                    else bf1 + bf1 * LearningRate ol)
                 else bf1)
      in if bf2 > BALANCEFACTOR_MAX_LOCAL then BALANCEFACTOR_MAX_LOCAL
         else if bf2 < BALANCEFACTOR_MIN_LOCAL then BALANCEFACTOR_MIN_LOCAL
         else bf2)"

text \<open>The condition tested at lines 439 and 448.\<close>

definition spillGate :: "OnlineLab \<Rightarrow> float64 \<Rightarrow> ServiceZone \<Rightarrow> ServiceZone \<Rightarrow> bool" where
  "spillGate ol cpuThr lz serviceZone \<longleftrightarrow>
     \<not> zoneBalanced ol lz serviceZone \<and> sz_WorkLoad lz > cpuThr
       \<and> sz_WorkLoad lz > sz_WorkLoad serviceZone"

text \<open>The factor of one node of another zone (lines 433 to 475).\<close>

definition crossFactor :: "bool \<Rightarrow> OnlineLab \<Rightarrow> float64 \<Rightarrow> (string \<times> float64) list \<Rightarrow> ServiceZone
    \<Rightarrow> ServiceZone \<Rightarrow> ServiceNode \<Rightarrow> float64" where
  "crossFactor zcu ol cpuThr cache lz serviceZone node =
     (let bf1 = (case map_of cache (InstanceID node) of
                   Some bf \<Rightarrow> bf
                 | None \<Rightarrow> BalanceFactor node);
          bf2 = (if spillGate ol cpuThr lz serviceZone
                 then bf1 * BALANCEFACTOR_CROSS_RATE
                 else BALANCEFACTOR_MIN_CROSS);
          bf3 = (if zcu then
                   (let b = (if spillGate ol cpuThr lz serviceZone then
                               (let b0 = (if bf2 < BALANCEFACTOR_START_CROSS
                                          then BALANCEFACTOR_START_CROSS else bf2)
                                in b0 + b0 * LearningRate ol)
                             else bf2 - bf2 * LearningRate ol)
                    in if \<not> nodeBalanced ol node serviceZone then
                         (if WorkLoad node > sz_WorkLoad serviceZone
                          then b + b * LearningRate ol
                          else b - b * LearningRate ol)
                       else b)
                 else bf2)
      in if bf3 > BALANCEFACTOR_MAX_CROSS then BALANCEFACTOR_MAX_CROSS
         else if bf3 < BALANCEFACTOR_MIN_CROSS then BALANCEFACTOR_MIN_CROSS
         else bf3)"

text \<open>
  Appending a node with its factor (lines 385, 386 and 418 to 421, the same at 431, 432
  and 477 to 480). \<^verbatim>\<open>CurrentFactor\<close> is written through the node pointer the pool
  shares with the zone; the model records it on the pool's node, where \<^verbatim>\<open>SelectNode\<close>
  returns it. No code reads it from \<^verbatim>\<open>serviceZones\<close> or \<^verbatim>\<open>localZone\<close>.
\<close>

definition appendNode :: "ServiceNode \<Rightarrow> float64 \<Rightarrow> CandidatePool \<times> (string \<times> float64) list
    \<Rightarrow> CandidatePool \<times> (string \<times> float64) list" where
  "appendNode node bf pc =
     (case pc of (pool, cache) \<Rightarrow>
        (pool\<lparr>cp_Nodes := cp_Nodes pool @ [node\<lparr>CurrentFactor := bf\<rparr>],
              cp_Weights := cp_Weights pool @ [0],
              cp_Factors := cp_Factors pool @ [bf],
              cp_FactorSum := cp_FactorSum pool + bf\<rparr>,
         mapStore (InstanceID node) bf cache))"

text \<open>The node loop of the local zone. \<^verbatim>\<open>nodeBalanced\<close> dereferences \<^verbatim>\<open>r.onlineLab\<close>
  at every node.\<close>

fun localNodes :: "ConsulResolver \<Rightarrow> bool \<Rightarrow> float64 \<Rightarrow> ServiceZone \<Rightarrow> ServiceNode list
    \<Rightarrow> CandidatePool \<times> (string \<times> float64) list
    \<Rightarrow> fault + (CandidatePool \<times> (string \<times> float64) list)" where
  "localNodes r factorCached localAvgFactor serviceZone [] pc = Inr pc"
| "localNodes r factorCached localAvgFactor serviceZone (node # nodes) pc =
     (case onlineLab r of
        None \<Rightarrow> Inl NilPointer
      | Some ol \<Rightarrow>
          localNodes r factorCached localAvgFactor serviceZone nodes
            (appendNode node
               (localFactor factorCached (zoneCPUUpdated r) ol (snd pc) localAvgFactor
                  serviceZone node) pc))"

text \<open>The node loop of another zone; \<open>ol\<close> and \<open>lz\<close> are the targets of
  \<^verbatim>\<open>r.onlineLab\<close> and \<^verbatim>\<open>localZone\<close>, known not to be nil at this point.\<close>

fun crossNodes :: "ConsulResolver \<Rightarrow> OnlineLab \<Rightarrow> ServiceZone \<Rightarrow> ServiceZone \<Rightarrow> ServiceNode list
    \<Rightarrow> CandidatePool \<times> (string \<times> float64) list \<Rightarrow> CandidatePool \<times> (string \<times> float64) list" where
  "crossNodes r ol lz serviceZone [] pc = pc"
| "crossNodes r ol lz serviceZone (node # nodes) pc =
     crossNodes r ol lz serviceZone nodes
       (appendNode node
          (crossFactor (zoneCPUUpdated r) ol (cpuThreshold r) (snd pc) lz serviceZone node)
          pc)"

text \<open>
  The zone loop (lines 381 to 484). The state is the pool under construction, the
  cache and \<^verbatim>\<open>localAvgFactor\<close>, which is assigned only after the node loop of a local
  zone has ended. \<^verbatim>\<open>r.localZone.Zone\<close> is read at every zone.
\<close>

fun zoneLoop :: "ConsulResolver \<Rightarrow> bool \<Rightarrow> ServiceZone list
    \<Rightarrow> CandidatePool \<times> (string \<times> float64) list \<Rightarrow> float64
    \<Rightarrow> fault + (CandidatePool \<times> (string \<times> float64) list)" where
  "zoneLoop r factorCached [] pc localAvgFactor = Inr pc"
| "zoneLoop r factorCached (serviceZone # rest) pc localAvgFactor =
     (case localZone r of
        None \<Rightarrow> Inl NilPointer
      | Some lz \<Rightarrow>
          if sz_Zone lz = sz_Zone serviceZone then
            (case logger r of
               None \<Rightarrow> Inl NilPointer
             | Some _ \<Rightarrow>
                 (case localNodes r factorCached localAvgFactor serviceZone
                         (sz_Nodes serviceZone) pc of
                    Inl f \<Rightarrow> Inl f
                  | Inr pc' \<Rightarrow>
                      zoneLoop r factorCached rest pc'
                        (if length (cp_Factors (fst pc')) > 0
                         then cp_FactorSum (fst pc') / real (length (cp_Factors (fst pc')))
                         else localAvgFactor)))
          else
            (case onlineLab r of
               None \<Rightarrow> Inl NilPointer
             | Some ol \<Rightarrow>
                 if CrossZone ol then
                   (case logger r of
                      None \<Rightarrow> Inl NilPointer
                    | Some _ \<Rightarrow>
                        zoneLoop r factorCached rest
                          (crossNodes r ol lz serviceZone (sz_Nodes serviceZone) pc)
                          localAvgFactor)
                 else zoneLoop r factorCached rest pc localAvgFactor))"

definition newCandidatePool :: CandidatePool where
  "newCandidatePool = \<lparr>cp_Nodes = [], cp_Factors = [], cp_Weights = [], cp_FactorSum = 0\<rparr>"

text \<open>\<^verbatim>\<open>updateCandidatePool\<close>: the zone loop from an empty pool, the metric, the publish.\<close>

definition updateCandidatePool :: "ConsulResolver \<Rightarrow> fault + ConsulResolver" where
  "updateCandidatePool r =
     (case zoneLoop r (length (balanceFactorCache r) > 0) (serviceZones r)
             (newCandidatePool, balanceFactorCache r) 0 of
        Inl f \<Rightarrow> Inl f
      | Inr (pool, cache) \<Rightarrow>
          (case metric r of
             Some mt \<Rightarrow>
               Inr (r\<lparr>balanceFactorCache := cache,
                      metric := Some (mt\<lparr>candidatePoolSize := of_nat (length (cp_Nodes pool))\<rparr>),
                      candidatePool := Some pool\<rparr>)
           | None \<Rightarrow>
               (case logger r of
                  None \<Rightarrow> Inl NilPointer
                | Some _ \<Rightarrow>
                    Inr (r\<lparr>balanceFactorCache := cache,
                           metric := Some \<lparr>candidatePoolSize = of_nat (length (cp_Nodes pool)),
                                            crossZoneNum = 0, selectNum = 0\<rparr>,
                           candidatePool := Some pool\<rparr>))))"

section \<open>The refresh pipeline and its driver\<close>

text \<open>\<^verbatim>\<open>updateAll\<close>: the logger is called first, then the five updates in order, each
  returning early on an error, then cache expiry and the pool builder.\<close>

definition updateAll :: "Env \<Rightarrow> ConsulResolver \<Rightarrow> fault + (error option \<times> ConsulResolver)" where
  "updateAll env r =
     (case logger r of
        None \<Rightarrow> Inl NilPointer
      | Some _ \<Rightarrow>
     (case updateCPUThreshold env r of
        Inl f \<Rightarrow> Inl f
      | Inr (Some err, r1) \<Rightarrow> Inr (Some err, r1)
      | Inr (None, r1) \<Rightarrow>
     (case updateZoneCPUMap env r1 of
        Inl f \<Rightarrow> Inl f
      | Inr (Some err, r2) \<Rightarrow> Inr (Some err, r2)
      | Inr (None, r2) \<Rightarrow>
     (case updateOnlineLabFactor env r2 of
        Inl f \<Rightarrow> Inl f
      | Inr (Some err, r3) \<Rightarrow> Inr (Some err, r3)
      | Inr (None, r3) \<Rightarrow>
     (case updateInstanceFactorMap env r3 of
        Inl f \<Rightarrow> Inl f
      | Inr (Some err, r4) \<Rightarrow> Inr (Some err, r4)
      | Inr (None, r4) \<Rightarrow>
     (case updateServiceZone env r4 of
        Inl f \<Rightarrow> Inl f
      | Inr (Some err, r5) \<Rightarrow> Inr (Some err, r5)
      | Inr (None, r5) \<Rightarrow>
     (case expireBalanceFactorCache env r5 of
        Inl f \<Rightarrow> Inl f
      | Inr r6 \<Rightarrow>
     (case updateCandidatePool r6 of
        Inl f \<Rightarrow> Inl f
      | Inr r7 \<Rightarrow> Inr (None, r7)))))))))"

text \<open>\<^verbatim>\<open>Start\<close> up to the point where the background task is spawned: the synchronous
  refresh, whose error is returned. One cycle of the background task is \<open>updateAll\<close>
  again, with a warning logged on error.\<close>

definition Start :: "Env \<Rightarrow> ConsulResolver \<Rightarrow> fault + (error option \<times> ConsulResolver)" where
  "Start env r = updateAll env r"

definition backgroundCycle :: "Env \<Rightarrow> ConsulResolver \<Rightarrow> fault + ConsulResolver" where
  "backgroundCycle env r =
     (case updateAll env r of
        Inl f \<Rightarrow> Inl f
      | Inr (Some err, r') \<Rightarrow> (case logger r' of None \<Rightarrow> Inl NilPointer | Some _ \<Rightarrow> Inr r')
      | Inr (None, r') \<Rightarrow> Inr r')"

section \<open>The selector\<close>

text \<open>
  The loop of \<^verbatim>\<open>SelectNode\<close> (lines 519 to 527): \<open>fs\<close> is what is left of
  \<^verbatim>\<open>Factors\<close> from index \<open>i\<close> on, \<open>ws\<close> the whole of \<^verbatim>\<open>Weights\<close>. A weight index out of
  range panics.
\<close>

fun selectLoop :: "float64 list \<Rightarrow> nat \<Rightarrow> float64 list \<Rightarrow> nat \<Rightarrow> float64
    \<Rightarrow> fault + (float64 list \<times> nat)" where
  "selectLoop [] i ws idx mx = Inr (ws, idx)"
| "selectLoop (f # fs) i ws idx mx =
     (if i < length ws then
        (let ws' = ws[i := ws ! i + f]
         in if mx < ws' ! i then selectLoop fs (Suc i) ws' i (ws' ! i)
            else selectLoop fs (Suc i) ws' idx mx)
      else Inl IndexOutOfRange)"

text \<open>The metric update of lines 532 to 536.\<close>

definition countSelect :: "string \<Rightarrow> ServiceNode \<Rightarrow> ConsulResolverMetric \<Rightarrow> ConsulResolverMetric" where
  "countSelect z node mt =
     (let mt1 = mt\<lparr>selectNum := selectNum mt + 1\<rparr>
      in if Zone node \<noteq> z then mt1\<lparr>crossZoneNum := crossZoneNum mt1 + 1\<rparr> else mt1)"

text \<open>
  \<^verbatim>\<open>SelectNode\<close>, returning with the node the index that line 528 logs. After the
  loop come the logger call, the reads of \<^verbatim>\<open>Nodes[idx]\<close> and \<^verbatim>\<open>Weights[idx]\<close>, and
  the metric.
\<close>

definition SelectNodeIdx ::
  "ConsulResolver \<Rightarrow> fault + ((nat \<times> ServiceNode) option \<times> ConsulResolver)" where
  "SelectNodeIdx r =
     (case candidatePool r of
        None \<Rightarrow> Inl NilPointer
      | Some p \<Rightarrow>
          if length (cp_Nodes p) = 0 then Inr (None, r)
          else
            (case selectLoop (cp_Factors p) 0 (cp_Weights p) 0 0 of
               Inl f \<Rightarrow> Inl f
             | Inr (ws, idx) \<Rightarrow>
                 (case logger r of
                    None \<Rightarrow> Inl NilPointer
                  | Some _ \<Rightarrow>
                      if \<not> idx < length (cp_Nodes p) then Inl IndexOutOfRange
                      else if \<not> idx < length ws then Inl IndexOutOfRange
                      else
                        (case metric r of
                           None \<Rightarrow> Inl NilPointer
                         | Some mt \<Rightarrow>
                             Inr (Some (idx, cp_Nodes p ! idx),
                               r\<lparr>candidatePool :=
                                    Some (p\<lparr>cp_Weights := ws[idx := ws ! idx - cp_FactorSum p]\<rparr>),
                                 metric := Some (countSelect (zone r) (cp_Nodes p ! idx) mt)\<rparr>)))))"

definition SelectNode :: "ConsulResolver \<Rightarrow> fault + (ServiceNode option \<times> ConsulResolver)" where
  "SelectNode r =
     (case SelectNodeIdx r of
        Inl f \<Rightarrow> Inl f
      | Inr (res, r') \<Rightarrow> Inr (map_option snd res, r'))"

text \<open>Successive calls: the indices chosen, in order, and the resolver after the last
  call. A call that returns nil contributes no index.\<close>

fun SelectNodeTimes :: "nat \<Rightarrow> ConsulResolver \<Rightarrow> fault + (nat list \<times> ConsulResolver)" where
  "SelectNodeTimes 0 r = Inr ([], r)"
| "SelectNodeTimes (Suc n) r =
     (case SelectNodeIdx r of
        Inl f \<Rightarrow> Inl f
      | Inr (res, r') \<Rightarrow>
          (case SelectNodeTimes n r' of
             Inl f \<Rightarrow> Inl f
           | Inr (idxs, r'') \<Rightarrow>
               Inr ((case res of None \<Rightarrow> [] | Some (idx, node) \<Rightarrow> [idx]) @ idxs, r'')))"

section \<open>Concrete inputs\<close>

text \<open>
  A registry with a CPU threshold of 70, zone A at 95 percent and zone B at 40, instance
  \<open>i-1\<close> at 42 percent, cross-zone traffic enabled, and the given health entries.
\<close>

definition exampleEntry :: "string \<Rightarrow> string \<Rightarrow> string \<Rightarrow> ServiceEntry" where
  "exampleEntry iid z bf =
     \<lparr> se_Meta = [''zone'' \<mapsto> z, ''balanceFactor'' \<mapsto> bf, ''instanceID'' \<mapsto> iid,
                  ''publicIP'' \<mapsto> ''10.0.0.1''],
       se_Address = ''10.0.0.1'', se_Port = 8080 \<rparr>"

definition exampleLab :: OnlineLab where
  "exampleLab = \<lparr> CrossZone = True, CrossZoneRate = 0, FactorCacheExpire = 1000,
      FactorStartRate = 1 / 2, LearningRate = 1 / 5, RateThreshold = 1 / 10 \<rparr>"

definition exampleEnv :: "ServiceEntry list \<Rightarrow> Env" where
  "exampleEnv entries =
     \<lparr> KVGet = (\<lambda>k. Inr (Some k)),
       UnmarshalCPUThreshold = (\<lambda>b. Inr \<lparr>CThreshold = 70\<rparr>),
       UnmarshalZoneCPU =
         (\<lambda>b. Inr \<lparr>zc_Updated = 0, zc_Date = [[''A'' \<mapsto> 95], [''B'' \<mapsto> 40]]\<rparr>),
       UnmarshalOnlineLab = (\<lambda>b. Inr exampleLab),
       UnmarshalInstanceFactor =
         (\<lambda>b. Inr \<lparr>if_Updated = 0,
                   if_Date = [\<lparr>im_PublicIP = ''10.0.0.1'', im_InstanceID = ''i-1'',
                               im_CPUUtilization = 42, im_Zone = ''A''\<rparr>]\<rparr>),
       HealthService = (\<lambda>svc idx t. Inr (entries, 7)),
       ParseFloat = (\<lambda>s. if s = ''1000'' then 1000 else 0),
       randSource = 1,
       rangeChoices = [] \<rparr>"

definition threeEntries :: "ServiceEntry list" where
  "threeEntries =
     [exampleEntry ''i-1'' ''A'' ''1000'', exampleEntry ''i-2'' ''A'' ''1000'',
      exampleEntry ''i-3'' ''B'' ''1000'']"

text \<open>A resolver in zone A, as constructed, with a logger set.\<close>

definition exampleResolver :: ConsulResolver where
  "exampleResolver =
     SetLogger (Some Logger)
       (NewConsulResolver ''127.0.0.1:8500'' ''svc'' ''cpu'' ''zonecpu'' ''inst'' ''lab'' 5 1 ''A'')"

definition exampleNode :: "string \<Rightarrow> string \<Rightarrow> float64 \<Rightarrow> float64 \<Rightarrow> ServiceNode" where
  "exampleNode iid z cf wl =
     \<lparr> PublicIP = ''10.0.0.1'', InstanceID = iid, Host = ''10.0.0.1'', Port = 8080,
       Zone = z, BalanceFactor = 1000, CurrentFactor = cf, WorkLoad = wl \<rparr>"

definition exampleZoneA :: ServiceZone where
  "exampleZoneA =
     \<lparr> sz_Nodes = [exampleNode ''i-1'' ''A'' 0 0, exampleNode ''i-2'' ''A'' 0 100],
       sz_Zone = ''A'', sz_WorkLoad = 95 \<rparr>"

definition exampleZoneB :: ServiceZone where
  "exampleZoneB =
     \<lparr> sz_Nodes = [exampleNode ''i-3'' ''B'' 0 100], sz_Zone = ''B'', sz_WorkLoad = 40 \<rparr>"

definition examplePool :: CandidatePool where
  "examplePool =
     \<lparr> cp_Nodes = [exampleNode ''i-1'' ''A'' 1000 0, exampleNode ''i-2'' ''A'' 1000 100,
                   exampleNode ''i-3'' ''B'' 100 100],
       cp_Factors = [1000, 1000, 100], cp_Weights = [0, 0, 0], cp_FactorSum = 2100 \<rparr>"

text \<open>The resolver after one refresh against \<open>exampleEnv threeEntries\<close>.\<close>

definition exampleRefreshed :: ConsulResolver where
  "exampleRefreshed =
     exampleResolver\<lparr> lastIndex := 7,
       candidatePool := Some examplePool,
       localZone := Some exampleZoneA,
       serviceZones := [exampleZoneA, exampleZoneB],
       zoneCPUMap := [''A'' \<mapsto> 95, ''B'' \<mapsto> 40],
       instanceFactorMap := [''i-1'' \<mapsto> 42, ''i-2'' \<mapsto> 0, ''i-3'' \<mapsto> 0],
       balanceFactorCache := [(''i-1'', 1000), (''i-2'', 1000), (''i-3'', 100)],
       cpuThreshold := 70,
       onlineLab := Some exampleLab,
       metric := Some \<lparr>candidatePoolSize = 3, crossZoneNum = 0, selectNum = 0\<rparr> \<rparr>"



text \<open>The example resolver once the four config fetches have been applied.\<close>

definition exampleConfigured :: ConsulResolver where
  "exampleConfigured =
     exampleResolver\<lparr> zoneCPUMap := [''A'' \<mapsto> 95, ''B'' \<mapsto> 40],
       instanceFactorMap := [''i-1'' \<mapsto> 42],
       cpuThreshold := 70,
       onlineLab := Some exampleLab \<rparr>"

definition entriesB :: "ServiceEntry list" where
  "entriesB = [exampleEntry ''i-3'' ''B'' ''1000'']"

text \<open>Scenario S5: the local zone has \<open>i-1\<close> alone, then \<open>i-2\<close> joins.\<close>

definition oneEntry :: "ServiceEntry list" where
  "oneEntry = [exampleEntry ''i-1'' ''A'' ''1000'']"

definition twoEntries :: "ServiceEntry list" where
  "twoEntries = [exampleEntry ''i-1'' ''A'' ''1000'', exampleEntry ''i-2'' ''A'' ''1000'']"

section \<open>Invariants of the candidate pool\<close>

text \<open>A freshly built pool: three sequences of one length, the running sum, all
  credits zero.\<close>

definition poolShape :: "CandidatePool \<Rightarrow> bool" where
  "poolShape p \<longleftrightarrow>
     length (cp_Nodes p) = length (cp_Factors p) \<and>
     length (cp_Factors p) = length (cp_Weights p) \<and>
     cp_FactorSum p = sum_list (cp_Factors p) \<and>
     set (cp_Weights p) \<subseteq> {0}"

definition inLocalRange :: "float64 \<Rightarrow> bool" where
  "inLocalRange f \<longleftrightarrow> BALANCEFACTOR_MIN_LOCAL \<le> f \<and> f \<le> BALANCEFACTOR_MAX_LOCAL"

definition inCrossRange :: "float64 \<Rightarrow> bool" where
  "inCrossRange f \<longleftrightarrow> BALANCEFACTOR_MIN_CROSS \<le> f \<and> f \<le> BALANCEFACTOR_MAX_CROSS"

text \<open>The range a factor must lie in, by whether its node is of the zone named.\<close>

definition factorInRange :: "string \<Rightarrow> ServiceNode \<Rightarrow> float64 \<Rightarrow> bool" where
  "factorInRange lzName node f =
     (if Zone node = lzName then inLocalRange f else inCrossRange f)"

definition poolRanges :: "string \<Rightarrow> CandidatePool \<Rightarrow> bool" where
  "poolRanges lzName p \<longleftrightarrow> list_all2 (factorInRange lzName) (cp_Nodes p) (cp_Factors p)"

text \<open>Every node of a zone carries the zone's name.\<close>

definition zoneNamed :: "ServiceZone \<Rightarrow> bool" where
  "zoneNamed z \<longleftrightarrow> list_all (\<lambda>n. Zone n = sz_Zone z) (sz_Nodes z)"

definition zoneMapOK :: "(string \<times> ServiceZone) list \<Rightarrow> bool" where
  "zoneMapOK m \<longleftrightarrow> list_all (\<lambda>(k, z). sz_Zone z = k \<and> zoneNamed z) m"

section \<open>Notions for the selector\<close>

text \<open>\<open>k\<close> is the smallest index at which \<open>us\<close> attains its maximum.\<close>

definition firstMax :: "float64 list \<Rightarrow> nat \<Rightarrow> bool" where
  "firstMax us k \<longleftrightarrow>
     k < length us \<and> (\<forall>j < length us. us ! j \<le> us ! k) \<and> (\<forall>j < k. us ! j < us ! k)"

text \<open>The invariant of the loop of \<^verbatim>\<open>SelectNode\<close> before index \<open>i\<close>: \<open>mx\<close> is the
  largest of zero and the weights seen, and \<open>idx\<close> is where it was first reached.\<close>

definition loopInv :: "nat \<Rightarrow> float64 list \<Rightarrow> nat \<Rightarrow> float64 \<Rightarrow> bool" where
  "loopInv i ws idx mx \<longleftrightarrow>
     0 \<le> mx \<and> (\<forall>j < i. ws ! j \<le> mx) \<and>
     (0 < mx \<longrightarrow> idx < i \<and> ws ! idx = mx \<and> (\<forall>j < idx. ws ! j < mx)) \<and>
     (mx = 0 \<longrightarrow> idx = 0)"

text \<open>A pool as the refresh publishes it and \<^verbatim>\<open>SelectNode\<close> keeps it: equal
  lengths, the factor sum, credits that sum to zero, positive factors.\<close>

definition poolLive :: "CandidatePool \<Rightarrow> bool" where
  "poolLive p \<longleftrightarrow>
     length (cp_Nodes p) = length (cp_Factors p) \<and>
     length (cp_Factors p) = length (cp_Weights p) \<and>
     cp_FactorSum p = sum_list (cp_Factors p) \<and>
     sum_list (cp_Weights p) = 0 \<and>
     list_all (\<lambda>f. 0 < f) (cp_Factors p)"

section \<open>The zone loop without the average of the local zone\<close>

text \<open>The zone loop as it would be if the node loop of the local zone were always given
  a local average of zero, so that its warm start from the average never applied. It is
  compared with \<open>zoneLoop\<close> below.\<close>

fun zoneLoopNoAvg :: "ConsulResolver \<Rightarrow> bool \<Rightarrow> ServiceZone list
    \<Rightarrow> CandidatePool \<times> (string \<times> float64) list
    \<Rightarrow> fault + (CandidatePool \<times> (string \<times> float64) list)" where
  "zoneLoopNoAvg r factorCached [] pc = Inr pc"
| "zoneLoopNoAvg r factorCached (serviceZone # rest) pc =
     (case localZone r of
        None \<Rightarrow> Inl NilPointer
      | Some lz \<Rightarrow>
          if sz_Zone lz = sz_Zone serviceZone then
            (case logger r of
               None \<Rightarrow> Inl NilPointer
             | Some _ \<Rightarrow>
                 (case localNodes r factorCached 0 serviceZone (sz_Nodes serviceZone) pc of
                    Inl f \<Rightarrow> Inl f
                  | Inr pc' \<Rightarrow> zoneLoopNoAvg r factorCached rest pc'))
          else
            (case onlineLab r of
               None \<Rightarrow> Inl NilPointer
             | Some ol \<Rightarrow>
                 if CrossZone ol then
                   (case logger r of
                      None \<Rightarrow> Inl NilPointer
                    | Some _ \<Rightarrow>
                        zoneLoopNoAvg r factorCached rest
                          (crossNodes r ol lz serviceZone (sz_Nodes serviceZone) pc))
                 else zoneLoopNoAvg r factorCached rest pc))"

section \<open>The pool builder keeps the invariants\<close>

lemmas example_defs = exampleEnv_def threeEntries_def exampleEntry_def exampleResolver_def
  exampleLab_def exampleNode_def exampleZoneA_def exampleZoneB_def examplePool_def
  exampleRefreshed_def NewConsulResolver_def SetLogger_def

lemma poolShape_new: "poolShape newCandidatePool"
  by (simp add: poolShape_def newCandidatePool_def)

lemma poolShape_appendNode:
  "poolShape (fst pc) \<Longrightarrow> poolShape (fst (appendNode node bf pc))"
  by (cases pc) (auto simp: poolShape_def appendNode_def)

lemma localFactor_range:
  "inLocalRange (localFactor fc zcu ol cache la z node)"
  by (simp add: localFactor_def inLocalRange_def Let_def
      BALANCEFACTOR_MAX_LOCAL_def BALANCEFACTOR_MIN_LOCAL_def)

lemma crossFactor_range:
  "inCrossRange (crossFactor zcu ol thr cache lz z node)"
  by (simp add: crossFactor_def inCrossRange_def Let_def
      BALANCEFACTOR_MAX_CROSS_def BALANCEFACTOR_MIN_CROSS_def)

lemma poolRanges_new: "poolRanges lzName newCandidatePool"
  by (simp add: poolRanges_def newCandidatePool_def)

lemma poolRanges_appendNode:
  "poolRanges lzName (fst pc) \<Longrightarrow> factorInRange lzName node bf
     \<Longrightarrow> poolRanges lzName (fst (appendNode node bf pc))"
  by (cases pc) (auto simp: poolRanges_def appendNode_def factorInRange_def
      intro!: list_all2_appendI)

lemma localNodes_shape:
  "localNodes r fc la z ns pc = Inr pc' \<Longrightarrow> poolShape (fst pc) \<Longrightarrow> poolShape (fst pc')"
proof (induction ns arbitrary: pc)
  case Nil
  then show ?case by simp
next
  case (Cons n ns)
  from Cons.prems(1) obtain ol where ol: "onlineLab r = Some ol"
    by (cases "onlineLab r") simp_all
  with Cons.prems(1) have
    "localNodes r fc la z ns
       (appendNode n (localFactor fc (zoneCPUUpdated r) ol (snd pc) la z n) pc) = Inr pc'"
    by simp
  then show ?case
    by (rule Cons.IH) (rule poolShape_appendNode [OF Cons.prems(2)])
qed

lemma crossNodes_shape:
  "poolShape (fst pc) \<Longrightarrow> poolShape (fst (crossNodes r ol lz z ns pc))"
proof (induction ns arbitrary: pc)
  case Nil
  then show ?case by simp
next
  case (Cons n ns)
  show ?case
    unfolding crossNodes.simps
    by (rule Cons.IH) (rule poolShape_appendNode [OF Cons.prems])
qed

lemma zoneLoop_shape:
  "zoneLoop r fc zs pc la = Inr pc' \<Longrightarrow> poolShape (fst pc) \<Longrightarrow> poolShape (fst pc')"
proof (induction zs arbitrary: pc la)
  case Nil
  then show ?case by simp
next
  case (Cons z zs)
  from Cons.prems(1) obtain lz where lz: "localZone r = Some lz"
    by (cases "localZone r") simp_all
  show ?case
  proof (cases "sz_Zone lz = sz_Zone z")
    case True
    with Cons.prems(1) lz obtain pc1 where
      l: "localNodes r fc la z (sz_Nodes z) pc = Inr pc1" and
      rest: "zoneLoop r fc zs pc1
               (if length (cp_Factors (fst pc1)) > 0
                then cp_FactorSum (fst pc1) / real (length (cp_Factors (fst pc1)))
                else la) = Inr pc'"
      by (simp split: option.splits sum.splits)
    from l Cons.prems(2) have "poolShape (fst pc1)"
      by (rule localNodes_shape)
    with rest show ?thesis
      by (rule Cons.IH)
  next
    case False
    with Cons.prems(1) lz obtain ol where ol: "onlineLab r = Some ol"
      by (cases "onlineLab r") simp_all
    show ?thesis
    proof (cases "CrossZone ol")
      case True
      with Cons.prems(1) lz False ol have
        "zoneLoop r fc zs (crossNodes r ol lz z (sz_Nodes z) pc) la = Inr pc'"
        by (simp split: option.splits)
      then show ?thesis
        by (rule Cons.IH) (rule crossNodes_shape [OF Cons.prems(2)])
    next
      case nocross: False
      with Cons.prems(1) lz False ol have "zoneLoop r fc zs pc la = Inr pc'"
        by simp
      then show ?thesis
        using Cons.prems(2) by (rule Cons.IH)
    qed
  qed
qed

lemma localNodes_ranges:
  "localNodes r fc la z ns pc = Inr pc' \<Longrightarrow> poolRanges lzName (fst pc)
     \<Longrightarrow> \<forall>n \<in> set ns. Zone n = lzName \<Longrightarrow> poolRanges lzName (fst pc')"
proof (induction ns arbitrary: pc)
  case Nil
  then show ?case by simp
next
  case (Cons n ns)
  from Cons.prems(1) obtain ol where ol: "onlineLab r = Some ol"
    by (cases "onlineLab r") simp_all
  let ?bf = "localFactor fc (zoneCPUUpdated r) ol (snd pc) la z n"
  from ol Cons.prems(1) have run: "localNodes r fc la z ns (appendNode n ?bf pc) = Inr pc'"
    by simp
  from Cons.prems(3) have "factorInRange lzName n ?bf"
    by (simp add: factorInRange_def localFactor_range)
  with Cons.prems(2) have step: "poolRanges lzName (fst (appendNode n ?bf pc))"
    by (rule poolRanges_appendNode)
  from Cons.prems(3) have rest: "\<forall>n \<in> set ns. Zone n = lzName"
    by simp
  show ?case
    by (rule Cons.IH [OF run step rest])
qed

lemma crossNodes_ranges:
  "poolRanges lzName (fst pc) \<Longrightarrow> \<forall>n \<in> set ns. Zone n \<noteq> lzName
     \<Longrightarrow> poolRanges lzName (fst (crossNodes r ol lz z ns pc))"
proof (induction ns arbitrary: pc)
  case Nil
  then show ?case by simp
next
  case (Cons n ns)
  let ?bf = "crossFactor (zoneCPUUpdated r) ol (cpuThreshold r) (snd pc) lz z n"
  from Cons.prems(2) have "factorInRange lzName n ?bf"
    by (simp add: factorInRange_def crossFactor_range)
  with Cons.prems(1) have step: "poolRanges lzName (fst (appendNode n ?bf pc))"
    by (rule poolRanges_appendNode)
  from Cons.prems(2) have rest: "\<forall>n \<in> set ns. Zone n \<noteq> lzName"
    by simp
  have "poolRanges lzName (fst (crossNodes r ol lz z ns (appendNode n ?bf pc)))"
    by (rule Cons.IH [OF step rest])
  then show ?case by simp
qed

lemma zoneLoop_ranges:
  "zoneLoop r fc zs pc la = Inr pc' \<Longrightarrow> localZone r = Some lz
     \<Longrightarrow> poolRanges (sz_Zone lz) (fst pc) \<Longrightarrow> \<forall>z \<in> set zs. zoneNamed z
     \<Longrightarrow> poolRanges (sz_Zone lz) (fst pc')"
proof (induction zs arbitrary: pc la)
  case Nil
  then show ?case by simp
next
  case (Cons z zs)
  show ?case
  proof (cases "sz_Zone lz = sz_Zone z")
    case True
    with Cons.prems obtain pc1 where
      l: "localNodes r fc la z (sz_Nodes z) pc = Inr pc1" and
      rest: "zoneLoop r fc zs pc1
               (if length (cp_Factors (fst pc1)) > 0
                then cp_FactorSum (fst pc1) / real (length (cp_Factors (fst pc1)))
                else la) = Inr pc'"
      by (auto split: option.splits sum.splits)
    from Cons.prems True have "\<forall>n \<in> set (sz_Nodes z). Zone n = sz_Zone lz"
      by (simp add: zoneNamed_def list_all_iff)
    with l Cons.prems have "poolRanges (sz_Zone lz) (fst pc1)"
      by (blast intro: localNodes_ranges)
    with rest Cons.prems show ?thesis
      by (auto intro: Cons.IH)
  next
    case False
    from Cons.prems False have nz: "\<forall>n \<in> set (sz_Nodes z). Zone n \<noteq> sz_Zone lz"
      by (auto simp: zoneNamed_def list_all_iff)
    from Cons.prems False obtain ol where ol: "onlineLab r = Some ol"
      by (auto split: option.splits)
    show ?thesis
    proof (cases "CrossZone ol")
      case True
      with Cons.prems False ol have
        rest: "zoneLoop r fc zs (crossNodes r ol lz z (sz_Nodes z) pc) la = Inr pc'"
        by (auto split: option.splits)
      from Cons.prems nz have "poolRanges (sz_Zone lz) (fst (crossNodes r ol lz z (sz_Nodes z) pc))"
        by (blast intro: crossNodes_ranges)
      with rest Cons.prems show ?thesis
        by (auto intro: Cons.IH)
    next
      case nocross: False
      with Cons.prems False ol have "zoneLoop r fc zs pc la = Inr pc'"
        by auto
      with Cons.prems show ?thesis
        by (auto intro: Cons.IH)
    qed
  qed
qed


lemma mapStore_mem:
  "(k', v') \<in> set (mapStore k v m) \<Longrightarrow> (k', v') = (k, v) \<or> (k', v') \<in> set m"
  by (induction m) (auto split: if_splits)

lemma mapStore_keys: "fst ` set (mapStore k v m) = insert k (fst ` set m)"
proof (induction m)
  case Nil
  then show ?case by simp
next
  case (Cons p m)
  obtain k' v' where p: "p = (k', v')" by (cases p)
  show ?case
  proof (cases "k' = k")
    case True
    with p show ?thesis by auto
  next
    case False
    with p Cons.IH show ?thesis by (simp add: insert_commute)
  qed
qed

lemma map_of_mapStore: "map_of (mapStore k v m) = (map_of m)(k \<mapsto> v)"
  by (induction m) auto

lemma zoneMapOK_store:
  "zoneMapOK m \<Longrightarrow> sz_Zone z = k \<Longrightarrow> zoneNamed z \<Longrightarrow> zoneMapOK (mapStore k z m)"
  unfolding zoneMapOK_def list_all_iff by (auto dest: mapStore_mem)

lemma zoneMapOK_lookup:
  "zoneMapOK m \<Longrightarrow> map_of m k = Some z \<Longrightarrow> sz_Zone z = k \<and> zoneNamed z"
  unfolding zoneMapOK_def list_all_iff by (auto dest: map_of_SomeD)

lemma groupNodes_ok:
  "groupNodes lg zcm vs ifm m = Inr (ifm', m') \<Longrightarrow> zoneMapOK m \<Longrightarrow> zoneMapOK m'"
proof (induction vs arbitrary: ifm m)
  case Nil
  then show ?case by simp
next
  case (Cons v0 vs)
  define v where "v = (case ifm (InstanceID v0) of None \<Rightarrow> v0\<lparr>WorkLoad := 100\<rparr> | Some w \<Rightarrow> v0)"
  have zv: "Zone v = Zone v0"
    by (simp add: v_def split: option.splits)
  define m1 where "m1 = (case map_of m (Zone v) of
      None \<Rightarrow> mapStore (Zone v)
         \<lparr> sz_Nodes = [v], sz_Zone = Zone v,
           sz_WorkLoad = (case zcm (Zone v) of Some zoneWorkload \<Rightarrow> zoneWorkload | None \<Rightarrow> 100) \<rparr> m
    | Some sz \<Rightarrow> mapStore (Zone v) (sz\<lparr>sz_Nodes := sz_Nodes sz @ [v]\<rparr>) m)"
  have ok1: "zoneMapOK m1"
  proof (cases "map_of m (Zone v)")
    case None
    then show ?thesis
      unfolding m1_def using Cons.prems(2)
      by (auto intro!: zoneMapOK_store simp: zoneNamed_def list_all_iff)
  next
    case (Some sz)
    with Cons.prems(2) have "sz_Zone sz = Zone v \<and> zoneNamed sz"
      by (blast dest: zoneMapOK_lookup)
    with Some show ?thesis
      unfolding m1_def using Cons.prems(2)
      by (auto intro!: zoneMapOK_store simp: zoneNamed_def list_all_iff)
  qed
  from Cons.prems(1) obtain ifm1 where "groupNodes lg zcm vs ifm1 m1 = Inr (ifm', m')"
    by (auto simp: Let_def v_def m1_def split: option.splits)
  then show ?case
    using ok1 by (rule Cons.IH)
qed

lemma groupNodes_keys:
  "groupNodes lg zcm vs ifm m = Inr (ifm', m')
     \<Longrightarrow> fst ` set m' = fst ` set m \<union> Zone ` set vs"
proof (induction vs arbitrary: ifm m)
  case Nil
  then show ?case by simp
next
  case (Cons v0 vs)
  define v where "v = (case ifm (InstanceID v0) of None \<Rightarrow> v0\<lparr>WorkLoad := 100\<rparr> | Some w \<Rightarrow> v0)"
  have zv: "Zone v = Zone v0"
    by (simp add: v_def split: option.splits)
  define m1 where "m1 = (case map_of m (Zone v) of
      None \<Rightarrow> mapStore (Zone v)
         \<lparr> sz_Nodes = [v], sz_Zone = Zone v,
           sz_WorkLoad = (case zcm (Zone v) of Some zoneWorkload \<Rightarrow> zoneWorkload | None \<Rightarrow> 100) \<rparr> m
    | Some sz \<Rightarrow> mapStore (Zone v) (sz\<lparr>sz_Nodes := sz_Nodes sz @ [v]\<rparr>) m)"
  have k1: "fst ` set m1 = insert (Zone v0) (fst ` set m)"
    unfolding m1_def by (simp add: mapStore_keys zv split: option.splits)
  from Cons.prems(1) obtain ifm1 where "groupNodes lg zcm vs ifm1 m1 = Inr (ifm', m')"
    by (auto simp: Let_def v_def m1_def split: option.splits)
  then have "fst ` set m' = fst ` set m1 \<union> Zone ` set vs"
    by (rule Cons.IH)
  with k1 show ?case by auto
qed

lemma rangeOrder_set: "set (rangeOrder cs xs) = set xs"
proof (induction cs xs rule: rangeOrder.induct)
  case (1 cs)
  then show ?case by simp
next
  case (2 x xs)
  then show ?case by simp
next
  case (3 c cs x xs)
  let ?ys = "x # xs"
  let ?i = "c mod length ?ys"
  have i: "?i < length ?ys" by simp
  have "set ?ys = insert (?ys ! ?i) (set (take ?i ?ys @ drop (Suc ?i) ?ys))"
  proof -
    have "?ys = take ?i ?ys @ (?ys ! ?i) # drop (Suc ?i) ?ys"
      using i by (rule id_take_nth_drop)
    then have "set ?ys = set (take ?i ?ys @ (?ys ! ?i) # drop (Suc ?i) ?ys)"
      by simp
    then show ?thesis by simp
  qed
  with 3 show ?case
    by (simp add: Let_def)
qed

lemma collectZones_fst: "fst (collectZones z vs (zs, lz)) = zs @ vs"
  by (induction vs arbitrary: zs lz) auto

lemma collectZones_snd_none:
  "\<forall>v \<in> set vs. sz_Zone v \<noteq> z \<Longrightarrow> snd (collectZones z vs (zs, lz)) = lz"
  by (induction vs arbitrary: zs lz) auto

lemma collectZones_snd_some:
  "snd (collectZones z vs (zs, lz)) = Some lz' \<Longrightarrow> Some lz' = lz \<or> lz' \<in> set vs"
  by (induction vs arbitrary: zs lz) (auto split: if_splits)


lemma updateServiceZone_result:
  assumes "updateServiceZone env r = Inr (None, r')"
  obtains res li ifm m where
    "HealthService env (service r) (lastIndex r) (timeout r) = Inr (res, li)"
    "groupNodes (logger r) (zoneCPUMap r) (map (entryNode env) res) (instanceFactorMap r) []
       = Inr (ifm, m)"
    "r' = r\<lparr>lastIndex := li, instanceFactorMap := ifm,
              localZone := snd (collectZones (zone r) (rangeOrder (rangeChoices env) (map snd m))
                                  ([], localZone r)),
              serviceZones := rangeOrder (rangeChoices env) (map snd m)\<rparr>"
proof -
  from assms obtain res li where
    h: "HealthService env (service r) (lastIndex r) (timeout r) = Inr (res, li)"
    by (auto simp: updateServiceZone_def split: sum.splits)
  with assms obtain ifm m where
    g: "groupNodes (logger r) (zoneCPUMap r) (map (entryNode env) res) (instanceFactorMap r) []
          = Inr (ifm, m)"
    by (auto simp: updateServiceZone_def split: sum.splits)
  obtain zs lz where
    c: "collectZones (zone r) (rangeOrder (rangeChoices env) (map snd m)) ([], localZone r)
          = (zs, lz)"
    by (cases "collectZones (zone r) (rangeOrder (rangeChoices env) (map snd m))
                 ([], localZone r)")
  from collectZones_fst [of "zone r" "rangeOrder (rangeChoices env) (map snd m)" "[]" "localZone r"] c
  have zs: "zs = rangeOrder (rangeChoices env) (map snd m)"
    by simp
  from assms h g c zs
  have "r' = r\<lparr>lastIndex := li, instanceFactorMap := ifm,
              localZone := snd (collectZones (zone r) (rangeOrder (rangeChoices env) (map snd m))
                                  ([], localZone r)),
              serviceZones := rangeOrder (rangeChoices env) (map snd m)\<rparr>"
    by (simp add: updateServiceZone_def)
  with h g show thesis by (rule that)
qed

lemma updateServiceZone_named:
  assumes "updateServiceZone env r = Inr (None, r')"
  shows "\<forall>z \<in> set (serviceZones r'). zoneNamed z"
proof -
  from assms obtain res li ifm m where
    g: "groupNodes (logger r) (zoneCPUMap r) (map (entryNode env) res) (instanceFactorMap r) []
          = Inr (ifm, m)" and
    sz: "serviceZones r' = rangeOrder (rangeChoices env) (map snd m)"
    by (rule updateServiceZone_result) simp
  have "zoneMapOK []" by (simp add: zoneMapOK_def)
  with g have "zoneMapOK m" by (rule groupNodes_ok)
  then have "\<forall>z \<in> set (map snd m). zoneNamed z"
    by (auto simp: zoneMapOK_def list_all_iff)
  with sz show ?thesis
    by (simp add: rangeOrder_set)
qed

lemma updateAll_stages:
  assumes "updateAll env r = Inr (None, r')"
  obtains r1 r2 r3 r4 r5 r6 where
    "updateCPUThreshold env r = Inr (None, r1)"
    "updateZoneCPUMap env r1 = Inr (None, r2)"
    "updateOnlineLabFactor env r2 = Inr (None, r3)"
    "updateInstanceFactorMap env r3 = Inr (None, r4)"
    "updateServiceZone env r4 = Inr (None, r5)"
    "expireBalanceFactorCache env r5 = Inr r6"
    "updateCandidatePool r6 = Inr r'"
  using assms unfolding updateAll_def
  by (auto split: option.splits sum.splits)

lemma updateCandidatePool_result:
  assumes "updateCandidatePool r = Inr r'"
  obtains pool cache where
    "zoneLoop r (length (balanceFactorCache r) > 0) (serviceZones r)
       (newCandidatePool, balanceFactorCache r) 0 = Inr (pool, cache)"
    "candidatePool r' = Some pool" "balanceFactorCache r' = cache"
    "localZone r' = localZone r" "serviceZones r' = serviceZones r"
    "metric r' \<noteq> None" "logger r' = logger r" "zone r' = zone r"
  using assms unfolding updateCandidatePool_def
  by (auto split: option.splits sum.splits)

lemma expireBalanceFactorCache_result:
  assumes "expireBalanceFactorCache env r = Inr r'"
  shows "r' = r \<or> r' = r\<lparr>balanceFactorCache := []\<rparr>"
  using assms unfolding expireBalanceFactorCache_def
  by (auto split: option.splits sum.splits if_splits)

lemma refresh_shape:
  assumes "updateAll env r = Inr (None, r')"
  obtains p where "candidatePool r' = Some p" "poolShape p"
proof -
  from assms obtain r6 where "updateCandidatePool r6 = Inr r'"
    by (rule updateAll_stages)
  then obtain pool cache where
    z: "zoneLoop r6 (length (balanceFactorCache r6) > 0) (serviceZones r6)
          (newCandidatePool, balanceFactorCache r6) 0 = Inr (pool, cache)" and
    p: "candidatePool r' = Some pool"
    by (rule updateCandidatePool_result)
  from z have "poolShape (fst (pool, cache))"
    by (rule zoneLoop_shape) (simp add: poolShape_new)
  with p show thesis by (auto intro: that)
qed

lemma zoneLoop_no_local:
  "localZone r = None \<Longrightarrow> zs \<noteq> [] \<Longrightarrow> zoneLoop r fc zs pc la = Inl NilPointer"
  by (cases zs) simp_all

lemma refresh_ranges:
  assumes "updateAll env r = Inr (None, r')"
  shows "\<exists>p. candidatePool r' = Some p
           \<and> (\<forall>lz. localZone r' = Some lz \<longrightarrow> poolRanges (sz_Zone lz) p)
           \<and> (localZone r' = None \<longrightarrow> cp_Nodes p = [])"
proof -
  from assms obtain r4 r5 r6 where
    s5: "updateServiceZone env r4 = Inr (None, r5)" and
    s6: "expireBalanceFactorCache env r5 = Inr r6" and
    s7: "updateCandidatePool r6 = Inr r'"
    by (rule updateAll_stages)
  from s5 have "\<forall>z \<in> set (serviceZones r5). zoneNamed z"
    by (rule updateServiceZone_named)
  moreover from s6 have "serviceZones r6 = serviceZones r5"
    by (auto dest: expireBalanceFactorCache_result)
  ultimately have named: "\<forall>z \<in> set (serviceZones r6). zoneNamed z"
    by simp
  from s7 obtain pool cache where
    z: "zoneLoop r6 (length (balanceFactorCache r6) > 0) (serviceZones r6)
          (newCandidatePool, balanceFactorCache r6) 0 = Inr (pool, cache)" and
    p: "candidatePool r' = Some pool" and
    l: "localZone r' = localZone r6"
    by (rule updateCandidatePool_result)
  have a: "poolRanges (sz_Zone lz) pool" if "localZone r' = Some lz" for lz
  proof -
    from that l have lz: "localZone r6 = Some lz" by simp
    have "poolRanges (sz_Zone lz) (fst (newCandidatePool, balanceFactorCache r6))"
      by (simp add: poolRanges_new)
    with z lz have "poolRanges (sz_Zone lz) (fst (pool, cache))"
      using named by (rule zoneLoop_ranges)
    then show ?thesis by simp
  qed
  have b: "cp_Nodes pool = []" if "localZone r' = None"
  proof (cases "serviceZones r6")
    case Nil
    with z show ?thesis by (auto simp: newCandidatePool_def)
  next
    case (Cons y ys)
    with that l z show ?thesis
      by (simp add: zoneLoop_no_local)
  qed
  show ?thesis
  proof (intro exI conjI allI impI)
    show "candidatePool r' = Some pool" by (rule p)
    show "poolRanges (sz_Zone lz) pool" if "localZone r' = Some lz" for lz
      using that by (rule a)
    show "cp_Nodes pool = []" if "localZone r' = None"
      using that by (rule b)
  qed
qed

section \<open>One refresh, evaluated\<close>

lemmas refresh_defs = updateAll_def updateCPUThreshold_def updateZoneCPUMap_def
  updateOnlineLabFactor_def updateInstanceFactorMap_def updateServiceZone_def
  expireBalanceFactorCache_def updateCandidatePool_def IntPseudoRandom_def entryNode_def
  metaGet_def newCandidatePool_def appendNode_def localFactor_def crossFactor_def
  nodeBalanced_def zoneBalanced_def spillGate_def
  BALANCEFACTOR_MAX_LOCAL_def BALANCEFACTOR_MIN_LOCAL_def BALANCEFACTOR_MAX_CROSS_def
  BALANCEFACTOR_MIN_CROSS_def BALANCEFACTOR_START_CROSS_def BALANCEFACTOR_CROSS_RATE_def


section \<open>Shape and bounds of the published pool\<close>





section \<open>The logger as a precondition\<close>

text \<open>
  Claim C10. The refresh pipeline calls the logger without a nil check at its first
  line: on a resolver whose logger is nil, \<open>updateAll\<close> faults on the nil pointer, and
  so do \<open>Start\<close> and every cycle of the background task. A resolver as constructed has
  no logger.
\<close>

theorem C10_nil_logger_faults:
  assumes "logger r = None"
  shows "updateAll env r = Inl NilPointer \<and> Start env r = Inl NilPointer
           \<and> backgroundCycle env r = Inl NilPointer"
  using assms by (simp add: updateAll_def Start_def backgroundCycle_def)

theorem C10_nil_logger_faults_witness:
  "logger (NewConsulResolver ''127.0.0.1:8500'' ''svc'' ''cpu'' ''zonecpu'' ''inst'' ''lab'' 5 1 ''A'')
     = None
   \<and> Start (exampleEnv threeEntries)
       (NewConsulResolver ''127.0.0.1:8500'' ''svc'' ''cpu'' ''zonecpu'' ''inst'' ''lab'' 5 1 ''A'')
     = Inl NilPointer"
  using C10_nil_logger_faults [of
      "NewConsulResolver ''127.0.0.1:8500'' ''svc'' ''cpu'' ''zonecpu'' ''inst'' ''lab'' 5 1 ''A''"
      "exampleEnv threeEntries"]
  by (simp add: NewConsulResolver_def)

section \<open>Aborted refresh cycles\<close>

text \<open>Each config update changes its own field, and only when it succeeds.\<close>

lemma config_only_cpu:
  "updateCPUThreshold env r = Inr (eo, r') \<Longrightarrow>
     (eo \<noteq> None \<longrightarrow> r' = r) \<and> r' = r\<lparr>cpuThreshold := cpuThreshold r'\<rparr> \<and> logger r' = logger r \<and> (eo = None \<longrightarrow> logger r \<noteq> None)"
  by (auto simp: updateCPUThreshold_def split: sum.splits option.splits)



lemma config_only_inst:
  "updateInstanceFactorMap env r = Inr (eo, r') \<Longrightarrow>
     (eo \<noteq> None \<longrightarrow> r' = r) \<and> r' = r\<lparr>instanceFactorMap := instanceFactorMap r'\<rparr> \<and> (eo = None \<longrightarrow> logger r \<noteq> None)"
  by (auto simp: updateInstanceFactorMap_def split: sum.splits option.splits)





section \<open>The local zone as a precondition\<close>

lemma groupNodes_logged:
  "groupNodes lg zcm vs ifm m = Inr res \<Longrightarrow> vs \<noteq> [] \<Longrightarrow> lg \<noteq> None"
  by (cases vs) (auto simp: Let_def split: option.splits)

lemma groupNodes_total:
  "lg \<noteq> None \<Longrightarrow> \<exists>ifm' m'. groupNodes lg zcm vs ifm m = Inr (ifm', m')"
  by (induction vs arbitrary: ifm m) (auto simp: Let_def split: option.splits)

lemma updateServiceZone_no_match:
  assumes h: "HealthService env (service r) (lastIndex r) (timeout r) = Inr (res, li)"
    and lg: "logger r \<noteq> None"
    and nomatch: "\<forall>entry \<in> set res. metaGet (se_Meta entry) ''zone'' \<noteq> zone r"
  shows "\<exists>r'. updateServiceZone env r = Inr (None, r') \<and> localZone r' = localZone r
           \<and> (res \<noteq> [] \<longrightarrow> serviceZones r' \<noteq> [])
           \<and> onlineLab r' = onlineLab r \<and> logger r' = logger r"
proof -
  from lg obtain ifm m where
    g: "groupNodes (logger r) (zoneCPUMap r) (map (entryNode env) res) (instanceFactorMap r) []
          = Inr (ifm, m)"
    using groupNodes_total by blast
  let ?zs = "rangeOrder (rangeChoices env) (map snd m)"
  have "zoneMapOK []" by (simp add: zoneMapOK_def)
  with g have ok: "zoneMapOK m" by (rule groupNodes_ok)
  from groupNodes_keys [OF g]
  have keys: "fst ` set m = Zone ` set (map (entryNode env) res)"
    by simp
  have "sz_Zone v \<noteq> zone r" if "v \<in> set ?zs" for v
  proof -
    from that obtain k where kv: "(k, v) \<in> set m"
      by (auto simp: rangeOrder_set)
    with ok have "sz_Zone v = k"
      by (auto simp: zoneMapOK_def list_all_iff)
    moreover from kv keys obtain entry where "entry \<in> set res" "k = Zone (entryNode env entry)"
      by force
    ultimately show ?thesis
      using nomatch by (auto simp: entryNode_def)
  qed
  then have l: "snd (collectZones (zone r) ?zs ([], localZone r)) = localZone r"
    by (intro collectZones_snd_none) blast
  have f: "fst (collectZones (zone r) ?zs ([], localZone r)) = ?zs"
    using collectZones_fst [of "zone r" ?zs "[]" "localZone r"] by simp
  have ne: "?zs \<noteq> []" if "res \<noteq> []"
  proof -
    from that keys have "fst ` set m \<noteq> {}" by simp
    then have "set ?zs \<noteq> {}" by (simp add: rangeOrder_set)
    then show ?thesis by auto
  qed
  obtain zs lz where c: "collectZones (zone r) ?zs ([], localZone r) = (zs, lz)"
    by (cases "collectZones (zone r) ?zs ([], localZone r)")
  with l f have "lz = localZone r" "zs = ?zs" by simp_all
  with h g c ne show ?thesis
    by (simp add: updateServiceZone_def)
qed

lemma config_frame_cpu:
  "updateCPUThreshold env r = Inr (eo, r') \<Longrightarrow>
     service r' = service r \<and> lastIndex r' = lastIndex r \<and> timeout r' = timeout r
     \<and> zone r' = zone r \<and> localZone r' = localZone r \<and> logger r' = logger r
     \<and> onlineLab r' = onlineLab r"
  by (auto simp: updateCPUThreshold_def split: sum.splits option.splits)

lemma config_frame_zone:
  "updateZoneCPUMap env r = Inr (eo, r') \<Longrightarrow>
     service r' = service r \<and> lastIndex r' = lastIndex r \<and> timeout r' = timeout r
     \<and> zone r' = zone r \<and> localZone r' = localZone r \<and> logger r' = logger r
     \<and> onlineLab r' = onlineLab r"
  by (auto simp: updateZoneCPUMap_def split: sum.splits option.splits)

lemma config_frame_lab:
  "updateOnlineLabFactor env r = Inr (eo, r') \<Longrightarrow>
     service r' = service r \<and> lastIndex r' = lastIndex r \<and> timeout r' = timeout r
     \<and> zone r' = zone r \<and> localZone r' = localZone r \<and> logger r' = logger r"
  by (auto simp: updateOnlineLabFactor_def split: sum.splits option.splits)

lemma config_frame_inst:
  "updateInstanceFactorMap env r = Inr (eo, r') \<Longrightarrow>
     service r' = service r \<and> lastIndex r' = lastIndex r \<and> timeout r' = timeout r
     \<and> zone r' = zone r \<and> localZone r' = localZone r \<and> logger r' = logger r
     \<and> onlineLab r' = onlineLab r"
  by (auto simp: updateInstanceFactorMap_def split: sum.splits option.splits)

lemma expire_total:
  assumes "onlineLab r = Some ol" and "0 < sint (FactorCacheExpire ol)" and "logger r \<noteq> None"
  shows "\<exists>r'. expireBalanceFactorCache env r = Inr r' \<and> localZone r' = localZone r
           \<and> serviceZones r' = serviceZones r"
  using assms by (auto simp: expireBalanceFactorCache_def IntPseudoRandom_def)

lemma updateCandidatePool_no_local:
  "localZone r = None \<Longrightarrow> serviceZones r \<noteq> [] \<Longrightarrow> updateCandidatePool r = Inl NilPointer"
  by (simp add: updateCandidatePool_def zoneLoop_no_local)

text \<open>
  Claim C9, as stated, fails when the registry returns no entry at all: no zone matches
  the resolver's zone and no earlier refresh set a local zone, yet the zone loop has
  nothing to visit, nothing is dereferenced, and the refresh publishes an empty pool.
\<close>

theorem C9_empty_registry_counterexample:
  "localZone exampleResolver = None
   \<and> updateAll (exampleEnv []) exampleResolver
     = Inr (None,
         exampleConfigured\<lparr> lastIndex := 7, candidatePool := Some newCandidatePool,
           metric := Some \<lparr>candidatePoolSize = 0, crossZoneNum = 0, selectNum = 0\<rparr> \<rparr>)"
  by (simp add: refresh_defs example_defs exampleConfigured_def)

text \<open>
  Claim C9, amended. If no earlier refresh set a local zone, the registry returns at
  least one entry and no entry is of the resolver's zone, then, once the four config
  fetches have succeeded with a positive \<^verbatim>\<open>factorCacheExpire\<close>, the pool builder
  dereferences the nil local zone at its first zone and the refresh faults.
\<close>

theorem C9_refresh_faults_without_local_zone:
  assumes "localZone r = None"
    and "updateCPUThreshold env r = Inr (None, r1)"
    and "updateZoneCPUMap env r1 = Inr (None, r2)"
    and "updateOnlineLabFactor env r2 = Inr (None, r3)"
    and "updateInstanceFactorMap env r3 = Inr (None, r4)"
    and "HealthService env (service r) (lastIndex r) (timeout r) = Inr (res, li)"
    and "res \<noteq> []"
    and "\<forall>entry \<in> set res. metaGet (se_Meta entry) ''zone'' \<noteq> zone r"
    and "onlineLab r3 = Some ol" and "0 < sint (FactorCacheExpire ol)"
  shows "updateAll env r = Inl NilPointer"
proof -
  note f1 = config_frame_cpu [OF assms(2)] and f2 = config_frame_zone [OF assms(3)]
    and f3 = config_frame_lab [OF assms(4)] and f4 = config_frame_inst [OF assms(5)]
  from config_only_cpu [OF assms(2)] have lg: "logger r \<noteq> None" by simp
  with f1 f2 f3 f4 have lg4: "logger r4 \<noteq> None" by simp
  from f1 f2 f3 f4 assms(6)
  have "HealthService env (service r4) (lastIndex r4) (timeout r4) = Inr (res, li)"
    by simp
  moreover from f1 f2 f3 f4 assms(8)
  have "\<forall>entry \<in> set res. metaGet (se_Meta entry) ''zone'' \<noteq> zone r4"
    by simp
  ultimately obtain r5 where
    s5: "updateServiceZone env r4 = Inr (None, r5)" and
    l5: "localZone r5 = localZone r4" and
    z5: "res \<noteq> [] \<longrightarrow> serviceZones r5 \<noteq> []" and
    o5: "onlineLab r5 = onlineLab r4" and g5: "logger r5 = logger r4"
    using updateServiceZone_no_match [OF _ lg4, of env res li] by blast
  from f4 assms(9) o5 have "onlineLab r5 = Some ol" by simp
  with assms(10) lg4 g5 obtain r6 where
    s6: "expireBalanceFactorCache env r5 = Inr r6" and
    l6: "localZone r6 = localZone r5" and z6: "serviceZones r6 = serviceZones r5"
    using expire_total [of r5 ol env] by auto
  from l6 l5 f1 f2 f3 f4 assms(1) have "localZone r6 = None" by simp
  moreover from z6 z5 assms(7) have "serviceZones r6 \<noteq> []" by simp
  ultimately have "updateCandidatePool r6 = Inl NilPointer"
    by (rule updateCandidatePool_no_local)
  with lg assms(2-5) s5 s6 show ?thesis
    by (auto simp: updateAll_def)
qed

theorem C9_refresh_faults_without_local_zone_witness:
  "localZone exampleResolver = None
   \<and> updateAll (exampleEnv entriesB) exampleResolver = Inl NilPointer"
  using C9_refresh_faults_without_local_zone [of exampleResolver "exampleEnv entriesB"
      "exampleResolver\<lparr>cpuThreshold := 70\<rparr>"
      "exampleResolver\<lparr>cpuThreshold := 70, zoneCPUMap := [''A'' \<mapsto> 95, ''B'' \<mapsto> 40]\<rparr>"
      "exampleResolver\<lparr>cpuThreshold := 70, zoneCPUMap := [''A'' \<mapsto> 95, ''B'' \<mapsto> 40],
            onlineLab := Some exampleLab\<rparr>"
      "exampleResolver\<lparr>cpuThreshold := 70, zoneCPUMap := [''A'' \<mapsto> 95, ''B'' \<mapsto> 40],
            onlineLab := Some exampleLab, instanceFactorMap := [''i-1'' \<mapsto> 42]\<rparr>"
      entriesB 7 exampleLab]
  by (simp add: updateCPUThreshold_def updateZoneCPUMap_def
      updateOnlineLabFactor_def updateInstanceFactorMap_def example_defs entriesB_def metaGet_def)

section \<open>Where the code departs from the specification\<close>

text \<open>Whatever the instance factor map holds, a node leaves the topology refresh with
  a workload of 0 or of 100.\<close>

lemma groupNodes_nodes:
  assumes "groupNodes lg zcm vs ifm m = Inr (ifm', m')"
    and "\<forall>(k, z) \<in> set m. \<forall>n \<in> set (sz_Nodes z). Q n"
    and "\<forall>v \<in> set vs. Q v \<and> Q (v\<lparr>WorkLoad := 100\<rparr>)"
  shows "\<forall>(k, z) \<in> set m'. \<forall>n \<in> set (sz_Nodes z). Q n"
  using assms
proof (induction vs arbitrary: ifm m)
  case Nil
  then show ?case by simp
next
  case (Cons v0 vs)
  define v where "v = (case ifm (InstanceID v0) of None \<Rightarrow> v0\<lparr>WorkLoad := 100\<rparr> | Some w \<Rightarrow> v0)"
  from Cons.prems(3) have qv: "Q v"
    by (simp add: v_def split: option.splits)
  define m1 where "m1 = (case map_of m (Zone v) of
      None \<Rightarrow> mapStore (Zone v)
         \<lparr> sz_Nodes = [v], sz_Zone = Zone v,
           sz_WorkLoad = (case zcm (Zone v) of Some zoneWorkload \<Rightarrow> zoneWorkload | None \<Rightarrow> 100) \<rparr> m
    | Some sz \<Rightarrow> mapStore (Zone v) (sz\<lparr>sz_Nodes := sz_Nodes sz @ [v]\<rparr>) m)"
  have ok1: "\<forall>(k, z) \<in> set m1. \<forall>n \<in> set (sz_Nodes z). Q n"
  proof (cases "map_of m (Zone v)")
    case None
    then show ?thesis
      unfolding m1_def using Cons.prems(2) qv
      by (auto dest!: mapStore_mem)
  next
    case (Some sz)
    then have "(Zone v, sz) \<in> set m" by (rule map_of_SomeD)
    with Cons.prems(2) have "\<forall>n \<in> set (sz_Nodes sz). Q n" by auto
    with Some show ?thesis
      unfolding m1_def using Cons.prems(2) qv
      by (auto dest!: mapStore_mem)
  qed
  from Cons.prems(1) obtain ifm1 where "groupNodes lg zcm vs ifm1 m1 = Inr (ifm', m')"
    by (auto simp: Let_def v_def m1_def split: option.splits)
  moreover from Cons.prems(3) have "\<forall>v \<in> set vs. Q v \<and> Q (v\<lparr>WorkLoad := 100\<rparr>)"
    by simp
  ultimately show ?case
    using ok1 by (intro Cons.IH)
qed

lemma updateServiceZone_workloads:
  assumes "updateServiceZone env r = Inr (None, r')"
  shows "\<forall>z \<in> set (serviceZones r'). \<forall>n \<in> set (sz_Nodes z). WorkLoad n = 0 \<or> WorkLoad n = 100"
proof -
  from assms obtain res li ifm m where
    g: "groupNodes (logger r) (zoneCPUMap r) (map (entryNode env) res) (instanceFactorMap r) []
          = Inr (ifm, m)" and
    sz: "serviceZones r' = rangeOrder (rangeChoices env) (map snd m)"
    by (rule updateServiceZone_result) simp
  have "\<forall>(k, z) \<in> set m. \<forall>n \<in> set (sz_Nodes z). WorkLoad n = 0 \<or> WorkLoad n = 100"
    by (rule groupNodes_nodes [OF g]) (auto simp: entryNode_def)
  then have "\<forall>z \<in> set (map snd m). \<forall>n \<in> set (sz_Nodes z). WorkLoad n = 0 \<or> WorkLoad n = 100"
    by fastforce
  with sz show ?thesis
    by (simp add: rangeOrder_set)
qed

text \<open>
  Claim C2 says that after a topology refresh a node's workload is the CPU value stored
  under its instance id in the instance factor map, and 100 when there is none. The
  code reads the value into \<^verbatim>\<open>workload\<close> and never assigns it to the node: with 42
  stored for \<open>i-1\<close> and nothing for \<open>i-2\<close> and \<open>i-3\<close>, the node \<open>i-1\<close> ends with
  workload 0, the others with 100.
\<close>

theorem C2_present_entry_leaves_workload_zero:
  "instanceFactorMap exampleConfigured ''i-1'' = Some 42
   \<and> instanceFactorMap exampleConfigured ''i-2'' = None
   \<and> (\<exists>r'. updateServiceZone (exampleEnv threeEntries) exampleConfigured = Inr (None, r')
         \<and> map (\<lambda>z. map (\<lambda>n. (InstanceID n, WorkLoad n)) (sz_Nodes z)) (serviceZones r')
             = [[(''i-1'', 0), (''i-2'', 100)], [(''i-3'', 100)]])"
  by (simp add: updateServiceZone_def entryNode_def metaGet_def example_defs exampleConfigured_def)


text \<open>The zones of a refresh have distinct names, so the node loop of the local zone
  runs at most once, before \<^verbatim>\<open>localAvgFactor\<close> is first assigned: in every refresh the
  zone loop computes what it would compute without the warm start from the average.\<close>

lemma zoneLoop_cross_only:
  "localZone r = Some lz \<Longrightarrow> sz_Zone lz \<notin> sz_Zone ` set zs
     \<Longrightarrow> zoneLoop r fc zs pc la = zoneLoopNoAvg r fc zs pc"
  by (induction zs arbitrary: pc) (auto split: option.splits)

lemma zoneLoop_single_local:
  "distinct (map sz_Zone zs) \<Longrightarrow> zoneLoop r fc zs pc 0 = zoneLoopNoAvg r fc zs pc"
proof (induction zs arbitrary: pc)
  case Nil
  then show ?case by simp
next
  case (Cons z zs)
  show ?case
  proof (cases "localZone r")
    case None
    then show ?thesis by simp
  next
    case (Some lz)
    show ?thesis
    proof (cases "sz_Zone lz = sz_Zone z")
      case True
      with Cons.prems have "sz_Zone lz \<notin> sz_Zone ` set zs" by simp
      with Some have "zoneLoop r fc zs pc' la = zoneLoopNoAvg r fc zs pc'" for pc' la
        by (rule zoneLoop_cross_only)
      with Some True show ?thesis
        by (simp split: option.splits sum.splits)
    next
      case False
      from Cons.prems have "distinct (map sz_Zone zs)" by simp
      then have "zoneLoop r fc zs pc' 0 = zoneLoopNoAvg r fc zs pc'" for pc'
        by (rule Cons.IH)
      with Some False show ?thesis
        by (simp split: option.splits)
    qed
  qed
qed

lemma mapStore_distinct:
  "distinct (map fst m) \<Longrightarrow> distinct (map fst (mapStore k v m))"
proof (induction m)
  case Nil
  then show ?case by simp
next
  case (Cons p m)
  obtain k' v' where p: "p = (k', v')" by (cases p)
  show ?case
  proof (cases "k' = k")
    case True
    with p Cons.prems show ?thesis by simp
  next
    case False
    from Cons have "distinct (map fst (mapStore k v m))" by simp
    moreover from Cons.prems p False have "k' \<notin> fst ` set (mapStore k v m)"
      by (simp add: mapStore_keys)
    ultimately show ?thesis
      using p False by simp
  qed
qed

lemma groupNodes_distinct:
  "groupNodes lg zcm vs ifm m = Inr (ifm', m') \<Longrightarrow> distinct (map fst m)
     \<Longrightarrow> distinct (map fst m')"
proof (induction vs arbitrary: ifm m)
  case Nil
  then show ?case by simp
next
  case (Cons v0 vs)
  define v where "v = (case ifm (InstanceID v0) of None \<Rightarrow> v0\<lparr>WorkLoad := 100\<rparr> | Some w \<Rightarrow> v0)"
  define m1 where "m1 = (case map_of m (Zone v) of
      None \<Rightarrow> mapStore (Zone v)
         \<lparr> sz_Nodes = [v], sz_Zone = Zone v,
           sz_WorkLoad = (case zcm (Zone v) of Some zoneWorkload \<Rightarrow> zoneWorkload | None \<Rightarrow> 100) \<rparr> m
    | Some sz \<Rightarrow> mapStore (Zone v) (sz\<lparr>sz_Nodes := sz_Nodes sz @ [v]\<rparr>) m)"
  have d1: "distinct (map fst m1)"
    unfolding m1_def using Cons.prems(2)
    by (simp add: mapStore_distinct split: option.splits)
  from Cons.prems(1) obtain ifm1 where "groupNodes lg zcm vs ifm1 m1 = Inr (ifm', m')"
    by (auto simp: Let_def v_def m1_def split: option.splits)
  then show ?case
    using d1 by (rule Cons.IH)
qed

lemma distinct_remove_mid:
  assumes "distinct (map f (as @ y # bs))"
  shows "distinct (map f (as @ bs)) \<and> f y \<notin> f ` set (as @ bs)"
  using assms by auto

lemma rangeOrder_distinct:
  "distinct (map f xs) \<Longrightarrow> distinct (map f (rangeOrder cs xs))"
proof (induction cs xs rule: rangeOrder.induct)
  case (1 cs)
  then show ?case by simp
next
  case (2 x xs)
  then show ?case by simp
next
  case (3 c cs x xs)
  let ?ys = "x # xs"
  define i where "i = c mod length ?ys"
  define rest where "rest = take i ?ys @ drop (Suc i) ?ys"
  have i: "i < length ?ys" by (simp add: i_def)
  have eq: "take i ?ys @ (?ys ! i) # drop (Suc i) ?ys = ?ys"
    using i by (rule id_take_nth_drop [symmetric])
  from "3.prems" have "distinct (map f (take i ?ys @ (?ys ! i) # drop (Suc i) ?ys))"
    by (simp only: eq)
  then have "distinct (map f rest) \<and> f (?ys ! i) \<notin> f ` set rest"
    unfolding rest_def by (rule distinct_remove_mid)
  moreover from this have "distinct (map f (rangeOrder cs rest))"
    using "3.IH" [of i] by (simp add: i_def rest_def)
  moreover have "rangeOrder (c # cs) ?ys = (?ys ! i) # rangeOrder cs rest"
    by (simp add: i_def rest_def Let_def)
  ultimately show ?case
    by (simp add: rangeOrder_set)
qed

lemma zoneMapOK_names: "zoneMapOK m \<Longrightarrow> map sz_Zone (map snd m) = map fst m"
  by (induction m) (auto simp: zoneMapOK_def)

lemma updateServiceZone_distinct:
  assumes "updateServiceZone env r = Inr (None, r')"
  shows "distinct (map sz_Zone (serviceZones r'))"
proof -
  from assms obtain res li ifm m where
    g: "groupNodes (logger r) (zoneCPUMap r) (map (entryNode env) res) (instanceFactorMap r) []
          = Inr (ifm, m)" and
    sz: "serviceZones r' = rangeOrder (rangeChoices env) (map snd m)"
    by (rule updateServiceZone_result) simp
  have "zoneMapOK []" by (simp add: zoneMapOK_def)
  with g have "zoneMapOK m" by (rule groupNodes_ok)
  then have names: "map sz_Zone (map snd m) = map fst m"
    by (rule zoneMapOK_names)
  from g have d: "distinct (map fst m)"
    by (rule groupNodes_distinct) simp
  have "distinct (map sz_Zone (map snd m))"
    unfolding names by (rule d)
  then show ?thesis
    unfolding sz by (rule rangeOrder_distinct)
qed

lemma refresh_never_warm_starts:
  assumes "updateServiceZone env r4 = Inr (None, r5)"
    and "expireBalanceFactorCache env r5 = Inr r6"
  shows "zoneLoop r6 fc (serviceZones r6) pc 0 = zoneLoopNoAvg r6 fc (serviceZones r6) pc"
proof -
  from assms(1) have "distinct (map sz_Zone (serviceZones r5))"
    by (rule updateServiceZone_distinct)
  moreover from assms(2) have "serviceZones r6 = serviceZones r5"
    by (auto dest: expireBalanceFactorCache_result)
  ultimately show ?thesis
    by (simp add: zoneLoop_single_local)
qed

text \<open>
  Claim C4 says that, with a non-empty cache, a local node that has no cache entry and
  comes after a cached peer is warm-started with the average factor of the peers
  already appended. In the code \<^verbatim>\<open>localAvgFactor\<close> is zero during the whole node
  loop of the local zone, since it is assigned after that loop: in the second refresh of
  scenario S5 the new node \<open>i-2\<close> gets its declared factor times \<^verbatim>\<open>factorStartRate\<close>,
  500, while the cached peer \<open>i-1\<close> has 1000.
\<close>

theorem C4_no_warm_start_from_local_average:
  "\<exists>r1 r2. updateAll (exampleEnv oneEntry) exampleResolver = Inr (None, r1)
     \<and> balanceFactorCache r1 = [(''i-1'', 1000)]
     \<and> updateAll (exampleEnv twoEntries) r1 = Inr (None, r2)
     \<and> map_option (\<lambda>p. map InstanceID (cp_Nodes p)) (candidatePool r2) = Some [''i-1'', ''i-2'']
     \<and> map_option cp_Factors (candidatePool r2) = Some [1000, 500]
     \<and> BalanceFactor (exampleNode ''i-2'' ''A'' 0 100) * FactorStartRate exampleLab = 500"
  by (simp add: refresh_defs example_defs oneEntry_def twoEntries_def)

section \<open>The selector\<close>

lemma loopInv_step:
  fixes f :: float64
  assumes inv: "loopInv i ws idx mx" and i: "i < length ws"
  defines "ws' \<equiv> ws[i := ws ! i + f]"
  shows "loopInv (Suc i) ws' (if mx < ws' ! i then i else idx) (if mx < ws' ! i then ws' ! i else mx)"
proof (cases "mx < ws' ! i")
  case True
  from inv have "0 \<le> mx" and le: "\<forall>j < i. ws ! j \<le> mx"
    by (simp_all add: loopInv_def)
  have same: "ws' ! j = ws ! j" if "j < i" for j
    using that by (simp add: ws'_def)
  have "\<forall>j < Suc i. ws' ! j \<le> ws' ! i"
  proof (intro allI impI)
    fix j assume "j < Suc i"
    show "ws' ! j \<le> ws' ! i"
    proof (cases "j = i")
      case True
      then show ?thesis by simp
    next
      case False
      with \<open>j < Suc i\<close> have "j < i" by simp
      with le same True show ?thesis by force
    qed
  qed
  moreover have "\<forall>j < i. ws' ! j < ws' ! i"
    using le same True by force
  ultimately show ?thesis
    using True \<open>0 \<le> mx\<close> by (simp add: loopInv_def)
next
  case False
  have same: "ws' ! j = ws ! j" if "j < i" for j
    using that by (simp add: ws'_def)
  from inv have "0 \<le> mx" and le: "\<forall>j < i. ws ! j \<le> mx"
    and pos: "0 < mx \<longrightarrow> idx < i \<and> ws ! idx = mx \<and> (\<forall>j < idx. ws ! j < mx)"
    and zero: "mx = 0 \<longrightarrow> idx = 0"
    by (simp_all add: loopInv_def)
  have "\<forall>j < Suc i. ws' ! j \<le> mx"
  proof (intro allI impI)
    fix j assume "j < Suc i"
    show "ws' ! j \<le> mx"
    proof (cases "j = i")
      case True
      with False show ?thesis by simp
    next
      case ne: False
      with \<open>j < Suc i\<close> have "j < i" by simp
      with le same show ?thesis by simp
    qed
  qed
  moreover have "0 < mx \<longrightarrow> idx < Suc i \<and> ws' ! idx = mx \<and> (\<forall>j < idx. ws' ! j < mx)"
    using pos same by auto
  ultimately show ?thesis
    using False \<open>0 \<le> mx\<close> zero by (simp add: loopInv_def)
qed

lemma selectLoop_result:
  assumes "i + length fs = length ws" and "loopInv i ws idx mx"
  shows "\<exists>us k mx'. selectLoop fs i ws idx mx = Inr (us, k) \<and> length us = length ws
           \<and> (\<forall>j < i. us ! j = ws ! j)
           \<and> (\<forall>j < length fs. us ! (i + j) = ws ! (i + j) + fs ! j)
           \<and> loopInv (length ws) us k mx'"
  using assms
proof (induction fs arbitrary: i ws idx mx)
  case Nil
  then show ?case by auto
next
  case (Cons f fs)
  define ws' where "ws' = ws[i := ws ! i + f]"
  define idx' where "idx' = (if mx < ws' ! i then i else idx)"
  define mx' where "mx' = (if mx < ws' ! i then ws' ! i else mx)"
  from Cons.prems(1) have i: "i < length ws" by simp
  have step: "selectLoop (f # fs) i ws idx mx = selectLoop fs (Suc i) ws' idx' mx'"
    using i by (simp add: ws'_def idx'_def mx'_def Let_def)
  have inv': "loopInv (Suc i) ws' idx' mx'"
    unfolding ws'_def idx'_def mx'_def
    using Cons.prems(2) i by (rule loopInv_step)
  from Cons.prems(1) have len': "Suc i + length fs = length ws'"
    by (simp add: ws'_def)
  from Cons.IH [OF len' inv'] obtain us k m2 where
    r: "selectLoop fs (Suc i) ws' idx' mx' = Inr (us, k)" and
    l: "length us = length ws'" and
    lo: "\<forall>j < Suc i. us ! j = ws' ! j" and
    hi: "\<forall>j < length fs. us ! (Suc i + j) = ws' ! (Suc i + j) + fs ! j" and
    fin: "loopInv (length ws') us k m2"
    by blast
  have "\<forall>j < i. us ! j = ws ! j"
    using lo by (simp add: ws'_def)
  moreover have "\<forall>j < length (f # fs). us ! (i + j) = ws ! (i + j) + (f # fs) ! j"
  proof (intro allI impI)
    fix j assume j: "j < length (f # fs)"
    show "us ! (i + j) = ws ! (i + j) + (f # fs) ! j"
    proof (cases j)
      case 0
      with lo i show ?thesis by (simp add: ws'_def)
    next
      case (Suc j')
      with j hi have "us ! (Suc i + j') = ws' ! (Suc i + j') + fs ! j'" by simp
      with Suc show ?thesis by (simp add: ws'_def)
    qed
  qed
  ultimately show ?case
    using step r l fin by (auto simp: ws'_def)
qed

lemma loopInv_firstMax:
  assumes "loopInv (length us) us k mx" and "j < length us" and "0 < us ! j"
  shows "firstMax us k \<and> 0 < us ! k"
proof -
  from assms(1,2) have "us ! j \<le> mx" by (simp add: loopInv_def)
  with assms(3) have "0 < mx" by simp
  with assms(1) show ?thesis
    by (auto simp: loopInv_def firstMax_def)
qed

lemma selectLoop_start:
  assumes len: "length fs = length ws" and pos: "j < length ws" "0 < ws ! j + fs ! j"
  shows "\<exists>k. selectLoop fs 0 ws 0 0 = Inr (map2 (+) ws fs, k) \<and> firstMax (map2 (+) ws fs) k
           \<and> 0 < map2 (+) ws fs ! k"
proof -
  have "loopInv 0 ws 0 0" by (simp add: loopInv_def)
  with len obtain us k mx' where
    r: "selectLoop fs 0 ws 0 0 = Inr (us, k)" and
    l: "length us = length ws" and
    hi: "\<forall>j < length fs. us ! (0 + j) = ws ! (0 + j) + fs ! j" and
    fin: "loopInv (length ws) us k mx'"
    using selectLoop_result [of 0 fs ws 0 0] by auto
  have us: "us = map2 (+) ws fs"
    using l len hi by (auto simp: list_eq_iff_nth_eq)
  from fin l have "loopInv (length us) us k mx'" by simp
  moreover from pos l have "j < length us" by simp
  moreover from pos hi len have "0 < us ! j" by simp
  ultimately have "firstMax us k \<and> 0 < us ! k" by (rule loopInv_firstMax)
  with r us show ?thesis by simp
qed


lemma SelectNodeIdx_step:
  assumes p: "candidatePool r = Some p" and lg: "logger r \<noteq> None" and mt: "metric r = Some mt"
    and l1: "length (cp_Nodes p) = length (cp_Factors p)"
    and l2: "length (cp_Factors p) = length (cp_Weights p)"
    and pos: "j < length (cp_Weights p)" "0 < cp_Weights p ! j + cp_Factors p ! j"
  shows "\<exists>k. firstMax (map2 (+) (cp_Weights p) (cp_Factors p)) k
           \<and> 0 < map2 (+) (cp_Weights p) (cp_Factors p) ! k
           \<and> SelectNodeIdx r = Inr (Some (k, cp_Nodes p ! k),
                 r\<lparr>candidatePool :=
                      Some (p\<lparr>cp_Weights := (map2 (+) (cp_Weights p) (cp_Factors p))
                                 [k := map2 (+) (cp_Weights p) (cp_Factors p) ! k - cp_FactorSum p]\<rparr>),
                   metric := Some (countSelect (zone r) (cp_Nodes p ! k) mt)\<rparr>)"
proof -
  let ?us = "map2 (+) (cp_Weights p) (cp_Factors p)"
  from selectLoop_start [OF l2 pos] obtain k where
    loop: "selectLoop (cp_Factors p) 0 (cp_Weights p) 0 0 = Inr (?us, k)" and
    fm: "firstMax ?us k" and kpos: "0 < ?us ! k"
    by blast
  from fm have k: "k < length ?us" by (simp add: firstMax_def)
  with l1 l2 have kn: "k < length (cp_Nodes p)" by simp
  from pos l1 l2 have ne: "length (cp_Nodes p) \<noteq> 0" by auto
  from lg obtain l where l: "logger r = Some l" by auto
  from p ne loop l mt k kn
  have "SelectNodeIdx r = Inr (Some (k, cp_Nodes p ! k),
                 r\<lparr>candidatePool := Some (p\<lparr>cp_Weights := ?us[k := ?us ! k - cp_FactorSum p]\<rparr>),
                   metric := Some (countSelect (zone r) (cp_Nodes p ! k) mt)\<rparr>)"
    by (simp add: SelectNodeIdx_def Let_def)
  with fm kpos show ?thesis by blast
qed

lemma sum_list_map2_add:
  fixes ws fs :: "float64 list"
  shows "length ws = length fs \<Longrightarrow> sum_list (map2 (+) ws fs) = sum_list ws + sum_list fs"
  by (induction ws fs rule: list_induct2) simp_all

lemma sum_list_pos_ex:
  fixes xs :: "float64 list"
  shows "0 < sum_list xs \<Longrightarrow> \<exists>j < length xs. 0 < xs ! j"
proof (induction xs)
  case Nil
  then show ?case by simp
next
  case (Cons x xs)
  show ?case
  proof (cases "0 < x")
    case True
    then show ?thesis by auto
  next
    case False
    with Cons.prems have "0 < sum_list xs" by simp
    with Cons.IH obtain j where "j < length xs" "0 < xs ! j" by blast
    then have "Suc j < length (x # xs) \<and> 0 < (x # xs) ! Suc j" by simp
    then show ?thesis by blast
  qed
qed

lemma sum_list_all_pos:
  fixes xs :: "float64 list"
  shows "xs \<noteq> [] \<Longrightarrow> list_all (\<lambda>f. 0 < f) xs \<Longrightarrow> 0 < sum_list xs"
proof (induction xs)
  case Nil
  then show ?case by simp
next
  case (Cons x xs)
  show ?case
  proof (cases "xs = []")
    case True
    with Cons.prems show ?thesis by simp
  next
    case False
    with Cons have "0 < sum_list xs" by simp
    with Cons.prems show ?thesis by simp
  qed
qed

lemma poolLive_positive:
  assumes "poolLive p" and "cp_Nodes p \<noteq> []"
  shows "\<exists>j < length (cp_Weights p). 0 < cp_Weights p ! j + cp_Factors p ! j"
proof -
  from assms have len: "length (cp_Weights p) = length (cp_Factors p)"
    and ne: "cp_Factors p \<noteq> []"
    by (auto simp: poolLive_def)
  from assms(1) ne have "0 < sum_list (cp_Factors p)"
    by (simp add: poolLive_def sum_list_all_pos)
  with assms(1) len have "0 < sum_list (map2 (+) (cp_Weights p) (cp_Factors p))"
    by (simp add: sum_list_map2_add poolLive_def)
  then obtain j where "j < length (map2 (+) (cp_Weights p) (cp_Factors p))"
    "0 < map2 (+) (cp_Weights p) (cp_Factors p) ! j"
    using sum_list_pos_ex by blast
  with len show ?thesis by auto
qed




lemma sum_delta_one:
  fixes x n :: nat
  shows "x < n \<Longrightarrow> (\<Sum>i<n. if i = x then 1 else 0) = (1::nat)"
proof (induction n)
  case 0
  then show ?case by simp
next
  case (Suc n)
  show ?case
  proof (cases "x = n")
    case True
    then show ?thesis by simp
  next
    case False
    with Suc show ?thesis by simp
  qed
qed

lemma count_list_sum:
  fixes xs :: "nat list"
  shows "\<forall>x \<in> set xs. x < n \<Longrightarrow> (\<Sum>i<n. count_list xs i) = length xs"
proof (induction xs)
  case Nil
  then show ?case by simp
next
  case (Cons x xs)
  then have x: "x < n" and rest: "(\<Sum>i<n. count_list xs i) = length xs"
    by simp_all
  have "(\<Sum>i<n. count_list (x # xs) i) = (\<Sum>i<n. (if i = x then 1 else 0) + count_list xs i)"
    by (rule sum.cong) auto
  also have "\<dots> = (\<Sum>i<n. if i = x then 1 else 0) + (\<Sum>i<n. count_list xs i)"
    by (simp add: sum.distrib)
  also have "(\<Sum>i<n. if i = x then 1 else 0) = (1::nat)"
    using x by (rule sum_delta_one)
  finally show ?case using rest by simp
qed

lemma sum_le_eq:
  fixes c m :: "nat \<Rightarrow> nat"
  assumes "\<forall>i < n. c i \<le> m i" and "(\<Sum>i<n. c i) = (\<Sum>i<n. m i)"
  shows "\<forall>i < n. c i = m i"
proof (rule ccontr)
  assume "\<not> (\<forall>i < n. c i = m i)"
  then obtain i where "i < n" "c i \<noteq> m i" by blast
  with assms(1) have "c i < m i" by (simp add: le_neq_implies_less)
  with assms(1) \<open>i < n\<close> have "(\<Sum>i<n. c i) < (\<Sum>i<n. m i)"
    by (intro sum_strict_mono_ex1) auto
  with assms(2) show False by simp
qed

lemma weights_sum:
  fixes F :: "nat \<Rightarrow> real"
  shows "(\<Sum>i<n. (real t * F i - real (c i) * S) + F i)
       = real (Suc t) * (\<Sum>i<n. F i) - real (\<Sum>i<n. c i) * S"
  by (simp add: sum.distrib sum_subtractf sum_distrib_left sum_distrib_right algebra_simps)

lemma wrr_run:
  fixes m c :: "nat \<Rightarrow> nat"
  assumes "candidatePool r = Some p" and "logger r \<noteq> None" and "metric r = Some mt"
    and "length (cp_Nodes p) = n" and "length (cp_Factors p) = n" and "length (cp_Weights p) = n"
    and "cp_FactorSum p = g * real N" and "0 < g"
    and "\<forall>i < n. cp_Factors p ! i = g * real (m i)" and "N = (\<Sum>i<n. m i)"
    and "\<forall>i < n. cp_Weights p ! i = real t * cp_Factors p ! i - real (c i) * cp_FactorSum p"
    and "(\<Sum>i<n. c i) = t" and "\<forall>i < n. c i \<le> m i" and "t + k \<le> N"
  shows "\<exists>idxs r'. SelectNodeTimes k r = Inr (idxs, r') \<and> length idxs = k
           \<and> (\<forall>x \<in> set idxs. x < n) \<and> (\<forall>i < n. c i + count_list idxs i \<le> m i)"
  using assms
proof (induction k arbitrary: r p mt c t)
  case 0
  then show ?case by simp
next
  case (Suc k)
  let ?F = "cp_Factors p" and ?W = "cp_Weights p" and ?S = "cp_FactorSum p"
  let ?us = "map2 (+) ?W ?F"
  from Suc.prems have tN: "t < N" by simp
  have sumF: "(\<Sum>i<n. ?F ! i) = ?S"
  proof -
    have "(\<Sum>i<n. ?F ! i) = (\<Sum>i<n. g * real (m i))"
      using Suc.prems(9) by (intro sum.cong) auto
    also have "\<dots> = g * real N"
      using Suc.prems(10) by (simp add: sum_distrib_left)
    finally show ?thesis using Suc.prems(7) by simp
  qed
  have us_nth: "?us ! i = real (Suc t) * ?F ! i - real (c i) * ?S" if "i < n" for i
    using that Suc.prems(5,6,11) by (simp add: algebra_simps)
  have "sum_list ?us = (\<Sum>i<n. ?us ! i)"
    using Suc.prems(5,6) by (simp add: sum_list_sum_nth atLeast0LessThan)
  also have "\<dots> = (\<Sum>i<n. (real t * ?F ! i - real (c i) * ?S) + ?F ! i)"
    by (intro sum.cong) (auto simp: us_nth algebra_simps)
  also have "\<dots> = real (Suc t) * (\<Sum>i<n. ?F ! i) - real (\<Sum>i<n. c i) * ?S"
    by (rule weights_sum)
  also have "\<dots> = ?S"
    using sumF Suc.prems(12) by (simp add: algebra_simps)
  finally have "sum_list ?us = ?S" .
  moreover from tN Suc.prems(7,8) have "0 < ?S" by simp
  ultimately have "0 < sum_list ?us" by simp
  then obtain j where j: "j < length ?us" "0 < ?us ! j"
    using sum_list_pos_ex by blast
  with Suc.prems(5,6) have jn: "j < length ?W" and jpos: "0 < ?W ! j + ?F ! j"
    by auto
  from Suc.prems(4,5,6) have l1: "length (cp_Nodes p) = length ?F" and l2: "length ?F = length ?W"
    by simp_all
  from SelectNodeIdx_step [OF Suc.prems(1,2,3) l1 l2 jn jpos] obtain x where
    fm: "firstMax ?us x" and xpos: "0 < ?us ! x" and
    step: "SelectNodeIdx r = Inr (Some (x, cp_Nodes p ! x),
             r\<lparr>candidatePool := Some (p\<lparr>cp_Weights := ?us[x := ?us ! x - ?S]\<rparr>),
               metric := Some (countSelect (zone r) (cp_Nodes p ! x) mt)\<rparr>)"
    by blast
  define r1 where "r1 = r\<lparr>candidatePool := Some (p\<lparr>cp_Weights := ?us[x := ?us ! x - ?S]\<rparr>),
               metric := Some (countSelect (zone r) (cp_Nodes p ! x) mt)\<rparr>"
  define p1 where "p1 = p\<lparr>cp_Weights := ?us[x := ?us ! x - ?S]\<rparr>"
  define c1 where "c1 = c(x := Suc (c x))"
  from fm Suc.prems(5,6) have xn: "x < n" by (simp add: firstMax_def)
  from xpos us_nth [OF xn] Suc.prems(7,9) xn
  have "0 < real (Suc t) * (g * real (m x)) - real (c x) * (g * real N)" by simp
  then have "0 < g * (real (Suc t) * real (m x) - real (c x) * real N)"
    by (simp add: algebra_simps)
  with Suc.prems(8) have "0 < real (Suc t) * real (m x) - real (c x) * real N"
    by (simp add: zero_less_mult_iff)
  then have "real (c x * N) < real (Suc t * m x)" by (simp add: algebra_simps)
  then have "c x * N < Suc t * m x" by (simp only: of_nat_less_iff)
  also from tN have "Suc t * m x \<le> N * m x" by (intro mult_le_mono1) simp
  finally have "c x * N < m x * N" by (simp add: mult.commute)
  then have cx: "c x < m x" by simp
  have a1: "candidatePool r1 = Some p1" by (simp add: r1_def p1_def)
  have a2: "logger r1 \<noteq> None" using Suc.prems(2) by (simp add: r1_def)
  have a3: "metric r1 = Some (countSelect (zone r) (cp_Nodes p ! x) mt)" by (simp add: r1_def)
  have a4: "length (cp_Nodes p1) = n" "length (cp_Factors p1) = n" "length (cp_Weights p1) = n"
    using Suc.prems(4,5,6) by (simp_all add: p1_def)
  have a7: "cp_FactorSum p1 = g * real N" using Suc.prems(7) by (simp add: p1_def)
  have a9: "\<forall>i < n. cp_Factors p1 ! i = g * real (m i)" using Suc.prems(9) by (simp add: p1_def)
  have a11: "\<forall>i < n. cp_Weights p1 ! i
      = real (Suc t) * cp_Factors p1 ! i - real (c1 i) * cp_FactorSum p1"
  proof (intro allI impI)
    fix i assume i: "i < n"
    show "cp_Weights p1 ! i = real (Suc t) * cp_Factors p1 ! i - real (c1 i) * cp_FactorSum p1"
    proof (cases "i = x")
      case True
      with i Suc.prems(5,6) have "cp_Weights p1 ! i = ?us ! x - ?S"
        by (simp add: p1_def)
      with True us_nth [OF xn] show ?thesis
        by (simp add: p1_def c1_def algebra_simps)
    next
      case False
      with i Suc.prems(5,6) have "cp_Weights p1 ! i = ?us ! i"
        by (simp add: p1_def)
      with False us_nth [OF i] show ?thesis
        by (simp add: p1_def c1_def)
    qed
  qed
  have a12: "(\<Sum>i<n. c1 i) = Suc t"
  proof -
    have "(\<Sum>i<n. c1 i) = (\<Sum>i<n. (if i = x then 1 else 0) + c i)"
      by (intro sum.cong) (auto simp: c1_def)
    also have "\<dots> = (\<Sum>i<n. if i = x then 1 else 0) + (\<Sum>i<n. c i)"
      by (simp add: sum.distrib)
    also have "(\<Sum>i<n. if i = x then 1 else 0) = (1::nat)"
      using xn by (rule sum_delta_one)
    finally show ?thesis using Suc.prems(12) by simp
  qed
  have a13: "\<forall>i < n. c1 i \<le> m i"
    using Suc.prems(13) cx by (auto simp: c1_def)
  from Suc.prems(14) have a14: "Suc t + k \<le> N" by simp
  from Suc.IH [OF a1 a2 a3 a4 a7 Suc.prems(8) a9 Suc.prems(10) a11 a12 a13 a14]
  obtain idxs r' where
    run: "SelectNodeTimes k r1 = Inr (idxs, r')" and len: "length idxs = k" and
    rng: "\<forall>y \<in> set idxs. y < n" and cnt: "\<forall>i < n. c1 i + count_list idxs i \<le> m i"
    by blast
  from step run have "SelectNodeTimes (Suc k) r = Inr (x # idxs, r')"
    by (simp add: r1_def)
  moreover have "length (x # idxs) = Suc k" using len by simp
  moreover have "\<forall>y \<in> set (x # idxs). y < n" using rng xn by simp
  moreover have "\<forall>i < n. c i + count_list (x # idxs) i \<le> m i"
    using cnt by (auto simp: c1_def split: if_splits)
  ultimately show ?case by blast
qed


lemma sum_list_update_real:
  fixes xs :: "float64 list"
  shows "k < length xs \<Longrightarrow> sum_list (xs[k := v]) = sum_list xs - xs ! k + v"
proof (induction xs arbitrary: k)
  case Nil
  then show ?case by simp
next
  case (Cons x xs)
  then show ?case by (cases k) simp_all
qed

lemma zero_weights_nth:
  "set ws \<subseteq> {0::float64} \<Longrightarrow> i < length ws \<Longrightarrow> ws ! i = 0"
  by (metis nth_mem singletonD subsetD)

lemma zero_weights_sum: "set ws \<subseteq> {0::float64} \<Longrightarrow> sum_list ws = 0"
  by (induction ws) auto

text \<open>
  Claim C8. Take a pool with all weights zero whose factors are multiples \<open>g * m i\<close> of
  a common divisor \<open>g\<close>. Then \<open>factor_sum / g\<close> successive calls of \<open>SelectNode\<close>, that
  is as many as the \<open>m i\<close> add up to, all return a node, and index \<open>i\<close> is chosen exactly
  \<open>m i = factors[i] / g\<close> times.
\<close>

theorem C8_smooth_wrr_counts:
  fixes m :: "nat \<Rightarrow> nat"
  assumes "candidatePool r = Some p" and "logger r \<noteq> None" and "metric r = Some mt"
    and "poolShape p"
    and "0 < g" and "\<forall>i < length (cp_Factors p). cp_Factors p ! i = g * real (m i)"
  shows "\<exists>idxs r'. SelectNodeTimes (\<Sum>i<length (cp_Factors p). m i) r = Inr (idxs, r')
           \<and> (\<forall>i < length (cp_Factors p). count_list idxs i = m i)
           \<and> real (\<Sum>i<length (cp_Factors p). m i) = cp_FactorSum p / g
           \<and> (\<forall>i < length (cp_Factors p). real (m i) = cp_Factors p ! i / g)"
proof -
  let ?n = "length (cp_Factors p)"
  let ?N = "\<Sum>i<?n. m i"
  from assms(4) have l1: "length (cp_Nodes p) = ?n" and l3: "length (cp_Weights p) = ?n"
    and fs: "cp_FactorSum p = sum_list (cp_Factors p)" and zero: "set (cp_Weights p) \<subseteq> {0}"
    by (simp_all add: poolShape_def)
  have "sum_list (cp_Factors p) = (\<Sum>i<?n. cp_Factors p ! i)"
    by (simp add: sum_list_sum_nth atLeast0LessThan)
  also have "\<dots> = (\<Sum>i<?n. g * real (m i))"
    using assms(6) by (intro sum.cong) auto
  also have "\<dots> = g * real ?N"
    by (simp add: sum_distrib_left)
  finally have S: "cp_FactorSum p = g * real ?N"
    using fs by simp
  have w0: "\<forall>i < ?n. cp_Weights p ! i
      = real 0 * cp_Factors p ! i - real ((\<lambda>i. 0::nat) i) * cp_FactorSum p"
    using zero l3 by (simp add: zero_weights_nth)
  have "\<exists>idxs r'. SelectNodeTimes ?N r = Inr (idxs, r') \<and> length idxs = ?N
           \<and> (\<forall>x \<in> set idxs. x < ?n) \<and> (\<forall>i < ?n. (\<lambda>i. 0::nat) i + count_list idxs i \<le> m i)"
    by (rule wrr_run [OF assms(1,2,3) l1 refl l3 S assms(5,6) refl w0]) simp_all
  then obtain idxs r' where
    run: "SelectNodeTimes ?N r = Inr (idxs, r')" and len: "length idxs = ?N" and
    rng: "\<forall>x \<in> set idxs. x < ?n" and le: "\<forall>i < ?n. count_list idxs i \<le> m i"
    by auto
  from rng have "(\<Sum>i<?n. count_list idxs i) = length idxs"
    by (rule count_list_sum)
  with len have "(\<Sum>i<?n. count_list idxs i) = (\<Sum>i<?n. m i)" by simp
  with le have cnt: "\<forall>i < ?n. count_list idxs i = m i"
    by (rule sum_le_eq)
  from S assms(5) have "real ?N = cp_FactorSum p / g" by simp
  moreover from assms(5,6) have "\<forall>i < ?n. real (m i) = cp_Factors p ! i / g" by simp
  ultimately show ?thesis
    using run cnt by blast
qed


theorem C8_smooth_wrr_counts_witness:
  "poolShape examplePool
   \<and> (\<exists>idxs r'. SelectNodeTimes 21 exampleRefreshed = Inr (idxs, r')
         \<and> count_list idxs 0 = 10 \<and> count_list idxs 1 = 10 \<and> count_list idxs 2 = 1)"
proof -
  let ?m = "\<lambda>i. [10, 10, 1::nat] ! i"
  have a: "candidatePool exampleRefreshed = Some examplePool"
    by (simp add: exampleRefreshed_def)
  have b: "logger exampleRefreshed \<noteq> None"
    by (simp add: example_defs)
  have c: "metric exampleRefreshed
      = Some \<lparr>candidatePoolSize = 3, crossZoneNum = 0, selectNum = 0\<rparr>"
    by (simp add: exampleRefreshed_def)
  have d: "poolShape examplePool"
    by (simp add: poolShape_def examplePool_def)
  have len: "length (cp_Factors examplePool) = 3"
    by (simp add: examplePool_def)
  have e: "\<forall>i < length (cp_Factors examplePool).
             cp_Factors examplePool ! i = 100 * real (?m i)"
    unfolding len by (auto simp: examplePool_def less_Suc_eq numeral_3_eq_3)
  have n: "(\<Sum>i<length (cp_Factors examplePool). ?m i) = 21"
    unfolding len by (simp add: numeral_3_eq_3)
  from C8_smooth_wrr_counts [OF a b c d _ e] obtain idxs r' where
    "SelectNodeTimes (\<Sum>i<length (cp_Factors examplePool). ?m i) exampleRefreshed
       = Inr (idxs, r')"
    "\<forall>i < length (cp_Factors examplePool). count_list idxs i = ?m i"
    by auto
  with n len have "SelectNodeTimes 21 exampleRefreshed = Inr (idxs, r')
      \<and> count_list idxs 0 = 10 \<and> count_list idxs 1 = 10 \<and> count_list idxs 2 = 1"
    by simp
  with d show ?thesis by blast
qed

lemma poolRanges_positive:
  assumes "poolRanges lzName p"
  shows "list_all (\<lambda>f. 0 < f) (cp_Factors p)"
proof -
  have "0 < f" if "factorInRange lzName node f" for node f
    using that
    by (auto simp: factorInRange_def inLocalRange_def inCrossRange_def
        BALANCEFACTOR_MIN_LOCAL_def BALANCEFACTOR_MIN_CROSS_def split: if_splits)
  with assms show ?thesis
    unfolding poolRanges_def list_all_iff
    by (metis in_set_conv_nth list_all2_conv_all_nth)
qed

lemma refresh_logger:
  assumes "updateAll env r = Inr (None, r')"
  shows "logger r' \<noteq> None"
proof -
  from assms obtain r1 r2 r3 r4 r5 r6 where
    s1: "updateCPUThreshold env r = Inr (None, r1)" and
    s2: "updateZoneCPUMap env r1 = Inr (None, r2)" and
    s3: "updateOnlineLabFactor env r2 = Inr (None, r3)" and
    s4: "updateInstanceFactorMap env r3 = Inr (None, r4)" and
    s5: "updateServiceZone env r4 = Inr (None, r5)" and
    s6: "expireBalanceFactorCache env r5 = Inr r6" and
    s7: "updateCandidatePool r6 = Inr r'"
    by (rule updateAll_stages)
  from config_only_inst [OF s4] have "logger r3 \<noteq> None" by simp
  with config_frame_inst [OF s4] have "logger r4 \<noteq> None" by simp
  moreover from s5 have "logger r5 = logger r4"
    by (rule updateServiceZone_result) simp
  moreover from s6 have "logger r6 = logger r5"
    by (auto dest: expireBalanceFactorCache_result)
  moreover from s7 have "logger r' = logger r6"
    by (rule updateCandidatePool_result)
  ultimately show ?thesis by simp
qed

lemma refresh_establishes_live:
  assumes "updateAll env r = Inr (None, r')"
  shows "\<exists>p mt. candidatePool r' = Some p \<and> poolLive p \<and> logger r' \<noteq> None
           \<and> metric r' = Some mt"
proof -
  from refresh_ranges [OF assms] obtain p where
    p: "candidatePool r' = Some p" and
    all_ranges: "\<forall>lz. localZone r' = Some lz \<longrightarrow> poolRanges (sz_Zone lz) p" and
    none: "localZone r' = None \<longrightarrow> cp_Nodes p = []"
    by (elim exE conjE)
  from assms obtain p' where "candidatePool r' = Some p'" and "poolShape p'"
    by (rule refresh_shape)
  with p have shape: "poolShape p" by simp
  have pos: "list_all (\<lambda>f. 0 < f) (cp_Factors p)"
  proof (cases "localZone r'")
    case None
    with none shape show ?thesis by (simp add: poolShape_def)
  next
    case (Some lz)
    with all_ranges have "poolRanges (sz_Zone lz) p" by simp
    then show ?thesis by (rule poolRanges_positive)
  qed
  from shape pos have "poolLive p"
    by (simp add: poolShape_def poolLive_def zero_weights_sum)
  moreover from assms obtain r6 where "updateCandidatePool r6 = Inr r'"
    by (rule updateAll_stages)
  then have "metric r' \<noteq> None"
    by (rule updateCandidatePool_result)
  ultimately show ?thesis
    using p refresh_logger [OF assms] by auto
qed

lemma SelectNode_keeps_live:
  assumes "candidatePool r = Some p" and "logger r \<noteq> None" and "metric r = Some mt"
    and "poolLive p"
  shows "\<exists>res r' p' mt'. SelectNode r = Inr (res, r') \<and> candidatePool r' = Some p'
           \<and> poolLive p' \<and> logger r' \<noteq> None \<and> metric r' = Some mt'
           \<and> cp_Nodes p' = cp_Nodes p \<and> cp_Factors p' = cp_Factors p
           \<and> cp_FactorSum p' = cp_FactorSum p"
proof (cases "cp_Nodes p = []")
  case True
  with assms show ?thesis
    by (simp add: SelectNode_def SelectNodeIdx_def)
next
  case False
  let ?us = "map2 (+) (cp_Weights p) (cp_Factors p)"
  from assms(4) have l1: "length (cp_Nodes p) = length (cp_Factors p)"
    and l2: "length (cp_Factors p) = length (cp_Weights p)"
    by (simp_all add: poolLive_def)
  from assms(4) False obtain j where
    "j < length (cp_Weights p)" "0 < cp_Weights p ! j + cp_Factors p ! j"
    using poolLive_positive by blast
  with SelectNodeIdx_step [OF assms(1-3) l1 l2] obtain k where
    fm: "firstMax ?us k" and
    step: "SelectNodeIdx r = Inr (Some (k, cp_Nodes p ! k),
             r\<lparr>candidatePool := Some (p\<lparr>cp_Weights := ?us[k := ?us ! k - cp_FactorSum p]\<rparr>),
               metric := Some (countSelect (zone r) (cp_Nodes p ! k) mt)\<rparr>)"
    by blast
  from fm have k: "k < length ?us" by (simp add: firstMax_def)
  have "sum_list (?us[k := ?us ! k - cp_FactorSum p]) = sum_list ?us - cp_FactorSum p"
    using k by (simp add: sum_list_update_real)
  also have "\<dots> = 0"
    using assms(4) l2 by (simp add: sum_list_map2_add poolLive_def)
  finally have "poolLive (p\<lparr>cp_Weights := ?us[k := ?us ! k - cp_FactorSum p]\<rparr>)"
    using assms(4) by (simp add: poolLive_def)
  with step assms(2) show ?thesis
    by (simp add: SelectNode_def)
qed

end
